theory Spec2Isabelle
  imports Main "HOL-Library.Sublist" "HOL-Library.Product_Lexorder" "HOL-Library.Multiset"
begin

section \<open>Strings\<close>

text \<open>
  A Python \<^verbatim>\<open>str\<close> is a sequence of Unicode code points, so a string of the
  program is a list of code points. \<open>lit\<close> turns an ASCII literal into such a string.

  The character classes of \<^verbatim>\<open>re\<close> and the case mapping of \<^verbatim>\<open>str.lower\<close> are
  modelled exactly on the code points below 128. Above 128 Python consults the
  Unicode database; the model knows the white space of Latin-1 only, takes no code point
  above 127 for a digit or a word character and leaves it unchanged in \<open>lower\<close>.
\<close>

type_synonym ustr = "nat list"

definition lit :: "string \<Rightarrow> ustr" where
  "lit s = map of_char s"

definition lower_cp :: "nat \<Rightarrow> nat" where
  "lower_cp c = (if 65 \<le> c \<and> c \<le> 90 then c + 32 else c)"

definition lower :: "ustr \<Rightarrow> ustr" where
  "lower s = map lower_cp s"

text \<open>\<^verbatim>\<open>text.startswith(kw)\<close> and \<^verbatim>\<open>kw in text\<close>.\<close>

fun startswith :: "ustr \<Rightarrow> ustr \<Rightarrow> bool" where
  "startswith text [] = True"
| "startswith [] (k # ks) = False"
| "startswith (c # cs) (k # ks) = (c = k \<and> startswith cs ks)"

fun py_in :: "ustr \<Rightarrow> ustr \<Rightarrow> bool" where
  "py_in kw [] = (kw = [])"
| "py_in kw (c # cs) = (startswith (c # cs) kw \<or> py_in kw cs)"

section \<open>Article records\<close>

text \<open>
  An article is a JSON object (a Python dict) with string values. The program reads and
  writes six keys of it; a key that is absent is \<open>None\<close>. \<open>get_or\<close> is
  \<^verbatim>\<open>d.get(key, default)\<close>.
\<close>

record article =
  title :: "ustr option"
  url :: "ustr option"
  date_str :: "ustr option"
  category :: "ustr option"
  headline_zh :: "ustr option"
  summary_zh :: "ustr option"

definition get_or :: "'a option \<Rightarrow> 'a \<Rightarrow> 'a" where
  "get_or v d = (case v of None \<Rightarrow> d | Some x \<Rightarrow> x)"

text \<open>
  The record that the fetcher builds from a title, a url and a raw date, in
  \<^verbatim>\<open>_normalize\<close> and in \<^verbatim>\<open>_html_articles\<close>.
\<close>

definition raw_article :: "ustr \<Rightarrow> ustr \<Rightarrow> ustr \<Rightarrow> article" where
  "raw_article t ul ds =
     \<lparr>title = Some t, url = Some ul, date_str = Some ds,
      category = None, headline_zh = None, summary_zh = None\<rparr>"

section \<open>Classifier\<close>

text \<open>
  The five category labels are two-character Chinese strings, given by their code points:
  funding U+878D U+8D44, partnership U+5408 U+4F5C, research U+7814 U+7A76,
  policy U+653F U+7B56, product U+4EA7 U+54C1.
\<close>

definition cat_funding :: ustr where "cat_funding = [0x878D, 0x8D44]"
definition cat_partner :: ustr where "cat_partner = [0x5408, 0x4F5C]"
definition cat_research :: ustr where "cat_research = [0x7814, 0x7A76]"
definition cat_policy :: ustr where "cat_policy = [0x653F, 0x7B56]"
definition cat_product :: ustr where "cat_product = [0x4EA7, 0x54C1]"

definition CATEGORY_RULES :: "(ustr \<times> ustr list) list" where
  "CATEGORY_RULES =
   [(cat_funding, map lit
      [''funding'', ''investment'', ''invest'', ''raises'', ''valuation'',
       ''billion'', ''million'', ''capital'', ''financing'', ''secured'',
       ''series '', ''round '']),
    (cat_partner, map lit
      [''partnership'', ''partner with'', ''agreement with'', ''collaboration with'',
       ''teams with'', ''works with'', ''integrat'',
       ''microsoft'', ''apple'', ''softbank'', ''oracle'', ''salesforce'',
       ''nvidia'', ''amazon'', ''google'', ''lg '', ''arm '']),
    (cat_research, map lit
      [''research'', ''technical report'', ''arxiv'', ''we trained'',
       ''breakthrough'', ''scaling'', ''alignment'', ''superalignment'',
       ''interpretability'', ''emergent'', ''multimodal'', ''reinforcement learning'',
       ''preparedness'']),
    (cat_policy, map lit
      [''safety'', ''governance'', ''policy'', ''regulation'', ''congressional'',
       ''government'', ''legislation'', ''senate'', ''congress'',
       ''democratic inputs'', ''executive order'', ''ai act'', ''board of'']),
    (cat_product,
      map lit
       [''introducing'', ''launch'', ''new model'', ''available'', ''releasing'',
        ''release'', ''chatgpt'', ''gpt-'', ''dall-e'']
      @ [lit ''dall'' @ [0xB7] @ lit ''e'']
      @ map lit
       [''whisper'', ''sora'', ''codex'', ''operator'', ''o1 '', ''o3 '', ''o4 '',
        ''jukebox'', ''point-e'', ''universe'', ''gym'', ''plugin'', ''store'',
        ''assistants api'', ''voice mode'', ''canvas'', ''deep research'',
        ''tasks'', ''projects'', ''memory'', ''custom instructions'',
        ''api '', ''access to'']
      @ [lit ''we'' @ [0x2019] @ lit ''re releasing'', lit ''we are releasing''])]"

text \<open>The inner loop over the keywords of one rule, and the outer loop over the rules.\<close>

fun any_keyword :: "ustr list \<Rightarrow> ustr \<Rightarrow> bool" where
  "any_keyword [] text = False"
| "any_keyword (kw # kws) text = (if py_in kw text then True else any_keyword kws text)"

fun classify_rules :: "(ustr \<times> ustr list) list \<Rightarrow> ustr \<Rightarrow> ustr option" where
  "classify_rules [] text = None"
| "classify_rules ((cat, keywords) # rules) text =
     (if any_keyword keywords text then Some cat else classify_rules rules text)"

definition classify_article :: "ustr \<Rightarrow> ustr \<Rightarrow> ustr option" where
  "classify_article t ul = classify_rules CATEGORY_RULES (lower (t @ lit '' '' @ ul))"

text \<open>
  The classifier as the specification words it: the category of the first rule, in list
  order, one of whose keywords is a substring of the text under test.
\<close>

definition rule_matches :: "ustr \<Rightarrow> ustr \<times> ustr list \<Rightarrow> bool" where
  "rule_matches text r = (\<exists>kw \<in> set (snd r). py_in kw text)"

definition first_rule :: "ustr \<Rightarrow> ustr option" where
  "first_rule text = map_option fst (find (rule_matches text) CATEGORY_RULES)"

section \<open>Character classes\<close>

text \<open>
  \<^verbatim>\<open>\d\<close>, \<^verbatim>\<open>[a-zA-Z]\<close>, \<^verbatim>\<open>\s\<close> and \<^verbatim>\<open>\w\<close> of \<^verbatim>\<open>re\<close> on a \<^verbatim>\<open>str\<close> pattern. The
  white space is what CPython takes for it below 256: the code points 9 to 13, 28 to 32,
  0x85 and 0xA0.
\<close>

definition is_digit :: "nat \<Rightarrow> bool" where
  "is_digit c = (48 \<le> c \<and> c \<le> 57)"

definition is_alpha :: "nat \<Rightarrow> bool" where
  "is_alpha c = ((65 \<le> c \<and> c \<le> 90) \<or> (97 \<le> c \<and> c \<le> 122))"

definition is_space :: "nat \<Rightarrow> bool" where
  "is_space c = ((9 \<le> c \<and> c \<le> 13) \<or> (28 \<le> c \<and> c \<le> 32) \<or> c = 0x85 \<or> c = 0xA0)"

definition is_word :: "nat \<Rightarrow> bool" where
  "is_word c = (is_digit c \<or> is_alpha c \<or> c = 95)"

text \<open>\<^verbatim>\<open>s.strip()\<close> and \<^verbatim>\<open>s.zfill(width)\<close> (the padding goes after a leading sign).\<close>

definition strip :: "ustr \<Rightarrow> ustr" where
  "strip s = rev (dropWhile is_space (rev (dropWhile is_space s)))"

definition zfill :: "nat \<Rightarrow> ustr \<Rightarrow> ustr" where
  "zfill width s =
     (case s of
        [] \<Rightarrow> replicate width 48
      | c # cs \<Rightarrow>
          if c = 43 \<or> c = 45 then c # replicate (width - length s) 48 @ cs
          else replicate (width - length s) 48 @ s)"

text \<open>
  \<^verbatim>\<open>int(s)\<close> on a string of decimal digits. \<open>None\<close> is the \<^verbatim>\<open>ValueError\<close> of a
  string that is not a number; signs, blanks and underscores, which \<^verbatim>\<open>int\<close> also
  reads, do not occur in the strings the program converts and are not modelled.
\<close>

definition digit_val :: "nat \<Rightarrow> nat" where
  "digit_val c = c - 48"

definition py_int :: "ustr \<Rightarrow> nat option" where
  "py_int s =
     (if s \<noteq> [] \<and> list_all is_digit s
      then Some (foldl (\<lambda>a c. 10 * a + digit_val c) 0 s) else None)"

section \<open>Year of a raw date\<close>

text \<open>
  \<^verbatim>\<open>re.search(r"\b(20\d{2}|201[0-9]|200[0-9])\b", date_str)\<close>. \<open>year_at\<close> matches the
  group and the closing \<^verbatim>\<open>\b\<close> at the head of a string: the three alternatives in
  their order, each four characters long, then the end of the string or a character that
  is no word character. \<open>year_search\<close> scans from the left; its first argument tells
  whether the character before the position is a word character, which decides the
  opening \<^verbatim>\<open>\b\<close>.
\<close>

fun year_at :: "ustr \<Rightarrow> nat option" where
  "year_at (c1 # c2 # c3 # c4 # rest) =
     (if ((c1 = 50 \<and> c2 = 48 \<and> is_digit c3 \<and> is_digit c4)
          \<or> (c1 = 50 \<and> c2 = 48 \<and> c3 = 49 \<and> is_digit c4)
          \<or> (c1 = 50 \<and> c2 = 48 \<and> c3 = 48 \<and> is_digit c4))
         \<and> (case rest of [] \<Rightarrow> True | c # cs \<Rightarrow> \<not> is_word c)
      then py_int [c1, c2, c3, c4] else None)"
| "year_at s = None"

fun year_search :: "bool \<Rightarrow> ustr \<Rightarrow> nat option" where
  "year_search before [] = None"
| "year_search before (c # cs) =
     (if before then year_search (is_word c) cs
      else (case year_at (c # cs) of
              Some y \<Rightarrow> Some y
            | None \<Rightarrow> year_search (is_word c) cs))"

definition year_of :: "ustr \<Rightarrow> nat option" where
  "year_of ds = (if ds = [] then None else year_search False ds)"

section \<open>Phase runner\<close>

definition PHASE_RANGES :: "(nat \<times> nat \<times> nat) list" where
  "PHASE_RANGES = [(1, (2015, 2019)), (2, (2020, 2021)), (3, (2022, 2023)), (4, (2024, 9999))]"

text \<open>The loop that filters the raw articles by year range.\<close>

fun in_range :: "nat \<Rightarrow> nat \<Rightarrow> article list \<Rightarrow> article list" where
  "in_range year_from year_to [] = []"
| "in_range year_from year_to (art # arts) =
     (case year_of (get_or (date_str art) []) of
        None \<Rightarrow> in_range year_from year_to arts
      | Some y \<Rightarrow>
          if y \<noteq> 0 \<and> year_from \<le> y \<and> y \<le> year_to
          then art # in_range year_from year_to arts
          else in_range year_from year_to arts)"

text \<open>
  The classification loop: the classified articles, each with its category set, and the
  number of articles skipped.
\<close>

fun classify_loop :: "article list \<Rightarrow> article list \<times> nat" where
  "classify_loop [] = ([], 0)"
| "classify_loop (art # arts) =
     (let (classified, skipped) = classify_loop arts in
      case classify_article (get_or (title art) []) (get_or (url art) []) of
        None \<Rightarrow> (classified, Suc skipped)
      | Some cat \<Rightarrow>
          if cat \<noteq> [] then (art\<lparr>category := Some cat\<rparr> # classified, skipped)
          else (classified, Suc skipped))"

text \<open>
  One translation call and what follows it inside the \<^verbatim>\<open>try\<close>: \<open>Reply h s\<close> is a JSON
  object parsed from the reply, with its optional keys \<^verbatim>\<open>headline\<close> and
  \<^verbatim>\<open>summary\<close>; \<open>Failed\<close> is any \<^verbatim>\<open>Exception\<close> raised on the way (a transport
  error, an error status, a reply of another shape, content that is no JSON, JSON that is
  no object). The remote service is a parameter: it answers the i-th call for an article.
\<close>

datatype response = Failed | Reply "ustr option" "ustr option"

definition translate :: "response \<Rightarrow> article \<Rightarrow> article" where
  "translate r art =
     (case r of
        Reply h s \<Rightarrow>
          art\<lparr>headline_zh := Some (get_or h (get_or (title art) [])),
              summary_zh := Some (get_or s [])\<rparr>
      | Failed \<Rightarrow>
          art\<lparr>headline_zh := Some (get_or (title art) []), summary_zh := Some []\<rparr>)"

fun translate_loop :: "(nat \<Rightarrow> article \<Rightarrow> response) \<Rightarrow> nat \<Rightarrow> article list \<Rightarrow> article list" where
  "translate_loop api i [] = []"
| "translate_loop api i (art # arts) =
     translate (api i art) art # translate_loop api (Suc i) arts"

section \<open>Files, paths and effects\<close>

text \<open>
  The module-level path constants depend on where the script is installed, and
  \<^verbatim>\<open>os.path.abspath\<close> on the working directory; so does the environment variable that
  holds the credential. They are the fields of \<open>env\<close>.
\<close>

type_synonym path = ustr

record env =
  RAW_PATH :: path
  OUTPUT_PATH :: path
  ORIGINAL_PATH :: path
  phase_path :: "nat \<Rightarrow> path"
  abspath :: "path \<Rightarrow> path"
  SILICONFLOW_API_KEY :: "ustr option"

text \<open>
  The constants as the module computes them when the script lies in the directory
  \<open>script_dir\<close> of the project \<open>project_root\<close>, both absolute and normalised, so that
  \<^verbatim>\<open>abspath\<close> leaves the paths as they are. \<open>str_nat\<close> is the decimal numeral that
  \<^verbatim>\<open>format\<close> prints.
\<close>

fun str_nat :: "nat \<Rightarrow> ustr" where
  "str_nat n = (if n < 10 then [48 + n] else str_nat (n div 10) @ [48 + n mod 10])"

declare str_nat.simps [simp del]

definition installed :: "path \<Rightarrow> path \<Rightarrow> ustr option \<Rightarrow> env" where
  "installed project_root script_dir key =
     \<lparr>RAW_PATH = script_dir @ lit ''/raw_articles.json'',
      OUTPUT_PATH = project_root @ lit ''/contrib/examples/new_openai_data.json'',
      ORIGINAL_PATH = project_root @ lit ''/contrib/examples/openai_data.json'',
      phase_path = (\<lambda>n. script_dir @ lit ''/phase'' @ str_nat n @ lit ''.json''),
      abspath = (\<lambda>p. p),
      SILICONFLOW_API_KEY = key\<rparr>"

record start_date =
  year :: ustr
  month :: ustr
  day :: "ustr option"

text \<open>
  A timeline event: \<open>headline\<close> and \<open>body\<close> are the two strings under its key
  \<^verbatim>\<open>text\<close>.
\<close>

record event =
  start :: start_date
  headline :: ustr
  body :: ustr
  group :: ustr

text \<open>
  A JSON file holds a list of articles (the raw cache and the phase files) or a timeline
  document, whose title block is fixed, so that its events are its content.
\<close>

datatype doc = Articles "article list" | Timeline "event list"

text \<open>
  The effects of \<open>cmd_merge\<close>, in the order they happen: a line printed, a call of
  \<^verbatim>\<open>os.path.exists\<close>, of \<^verbatim>\<open>load_json\<close> and of \<^verbatim>\<open>save_json\<close>. Console output
  and sleeping are modelled for \<open>cmd_merge\<close> only; the phase runner and the fetcher are
  modelled by the data they read and write.
\<close>

datatype line =
    Rule
  | MergeTitle
  | WarnMissing path
  | ReadCount nat nat
  | SkipNoDate ustr
  | WillOverwrite path
  | Written nat

datatype effect = Print line | Exists path | Load path | Save path doc

record world =
  files :: "path \<rightharpoonup> doc"
  log :: "effect list"

datatype failure = AssertionError | AttributeError | ValueError | SystemExit nat

definition emit :: "effect \<Rightarrow> world \<Rightarrow> world" where
  "emit e w = w\<lparr>log := log w @ [e]\<rparr>"

definition save_json :: "path \<Rightarrow> doc \<Rightarrow> world \<Rightarrow> world" where
  "save_json p d w = emit (Save p d) (w\<lparr>files := (files w)(p \<mapsto> d)\<rparr>)"

section \<open>Date parsing\<close>

text \<open>
  \<^verbatim>\<open>re.match(r"(\d{4})-(\d{2})-(\d{2})", date_str)\<close>: the three groups, when the first
  ten characters have that shape. Nothing is asked of what follows them.
\<close>

definition strict_match :: "ustr \<Rightarrow> (ustr \<times> ustr \<times> ustr) option" where
  "strict_match s =
     (if 10 \<le> length s
         \<and> list_all is_digit (take 4 s) \<and> s ! 4 = 45
         \<and> list_all is_digit (take 2 (drop 5 s)) \<and> s ! 7 = 45
         \<and> list_all is_digit (take 2 (drop 8 s))
      then Some (take 4 s, take 2 (drop 5 s), take 2 (drop 8 s)) else None)"

text \<open>
  \<^verbatim>\<open>re.match(r"([a-zA-Z]+)\s+(\d{1,2}),?\s+(\d{4})", date_str)\<close>. Each greedy piece takes
  all it can, and giving one character back never helps: the piece after it would have
  to start with the very kind of character it cannot match. So the match is found
  without backtracking: the letters, the white space, one or two digits, a comma if there
  is one, the white space, four digits.
\<close>

definition name_match :: "ustr \<Rightarrow> (ustr \<times> ustr \<times> ustr) option" where
  "name_match s =
     (let name = takeWhile is_alpha s;
          r1 = dropWhile is_alpha s;
          r2 = dropWhile is_space r1;
          dd = takeWhile is_digit (take 2 r2);
          r3 = drop (length dd) r2;
          r4 = (case r3 of [] \<Rightarrow> r3 | c # cs \<Rightarrow> if c = 44 then cs else r3);
          r5 = dropWhile is_space r4;
          yyyy = take 4 r5
      in if name \<noteq> [] \<and> length r2 < length r1 \<and> dd \<noteq> [] \<and> length r5 < length r4
            \<and> length yyyy = 4 \<and> list_all is_digit yyyy
         then Some (name, dd, yyyy) else None)"

definition month_map :: "(ustr \<times> ustr) list" where
  "month_map = map (\<lambda>(k, v). (lit k, lit v))
     [(''january'', ''01''), (''february'', ''02''), (''march'', ''03''), (''april'', ''04''),
      (''may'', ''05''), (''june'', ''06''), (''july'', ''07''), (''august'', ''08''),
      (''september'', ''09''), (''october'', ''10''), (''november'', ''11''), (''december'', ''12''),
      (''jan'', ''01''), (''feb'', ''02''), (''mar'', ''03''), (''apr'', ''04''),
      (''jun'', ''06''), (''jul'', ''07''), (''aug'', ''08''),
      (''sep'', ''09''), (''oct'', ''10''), (''nov'', ''11''), (''dec'', ''12'')]"

definition parse_date :: "ustr \<Rightarrow> start_date option" where
  "parse_date ds =
     (if ds = [] then None
      else case strict_match ds of
        Some (y, m, d) \<Rightarrow>
          Some \<lparr>year = y, month = m, day = (if d \<noteq> lit ''01'' then Some d else None)\<rparr>
      | None \<Rightarrow>
          (case name_match ds of
             None \<Rightarrow> None
           | Some (name, dd, yyyy) \<Rightarrow>
               (case map_of month_map (lower name) of
                  None \<Rightarrow> None
                | Some mon \<Rightarrow>
                    if mon \<noteq> [] then Some \<lparr>year = yyyy, month = mon, day = Some (zfill 2 dd)\<rparr>
                    else None)))"

section \<open>Merger\<close>

text \<open>
  \<open>sort_key_of\<close> is \<^verbatim>\<open>_sort_key\<close>: the key is a triple of numbers, a missing day counts
  as 0, and a field that is no number raises \<^verbatim>\<open>ValueError\<close>.
\<close>

definition sort_key_of :: "event \<Rightarrow> (nat \<times> nat \<times> nat) option" where
  "sort_key_of ev =
     (case py_int (year (start ev)) of
        None \<Rightarrow> None
      | Some y \<Rightarrow>
          (case py_int (month (start ev)) of
             None \<Rightarrow> None
           | Some m \<Rightarrow>
               (case day (start ev) of
                  None \<Rightarrow> Some (y, m, 0)
                | Some ds \<Rightarrow>
                    (case py_int ds of None \<Rightarrow> None | Some d \<Rightarrow> Some (y, m, d)))))"

text \<open>
  \<^verbatim>\<open>events.sort(key=_sort_key)\<close>: the sort of Python is stable and ascending in the
  lexicographic order of the keys, as \<open>sort_key\<close> is.
\<close>

definition sort_events :: "event list \<Rightarrow> failure + event list" where
  "sort_events evs =
     (if list_all (\<lambda>ev. sort_key_of ev \<noteq> None) evs
      then Inr (sort_key (\<lambda>ev. the (sort_key_of ev)) evs)
      else Inl ValueError)"

definition LINK_HTML :: "ustr \<Rightarrow> ustr" where
  "LINK_HTML u =
     lit ''<a href='' @ [34] @ u @ [34] @ lit '' target='' @ [34] @ lit ''_blank'' @ [34]
     @ lit '' style='' @ [34] @ lit ''display:block;margin-top:6px;color:#10a37f'' @ [34]
     @ lit ''>'' @ [0x2192] @ lit '' OpenAI '' @ [0x5B98, 0x65B9, 0x62A5, 0x9053] @ lit ''</a>''"

definition make_event :: "article \<Rightarrow> start_date \<Rightarrow> event" where
  "make_event art sd =
     (let u = get_or (url art) [];
          hl = (case headline_zh art of
                  None \<Rightarrow> get_or (title art) []
                | Some h \<Rightarrow> if h \<noteq> [] then h else get_or (title art) []);
          summary = get_or (summary_zh art) [];
          cat = get_or (category art) cat_product;
          link = (if u \<noteq> [] then LINK_HTML u else []);
          b = (if summary \<noteq> [] then summary @ link else link)
      in \<lparr>start = sd, headline = hl, body = b, group = cat\<rparr>)"

text \<open>The loop over the articles of one phase file.\<close>

fun merge_articles :: "article list \<Rightarrow> world \<times> event list \<Rightarrow> world \<times> event list" where
  "merge_articles [] (w, events) = (w, events)"
| "merge_articles (art # arts) (w, events) =
     (case parse_date (get_or (date_str art) []) of
        None \<Rightarrow>
          merge_articles arts (emit (Print (SkipNoDate (get_or (title art) []))) w, events)
      | Some sd \<Rightarrow> merge_articles arts (w, events @ [make_event art sd]))"

text \<open>
  The loop over the phase numbers. A phase file that holds a JSON object instead of a
  list makes the loop iterate over its keys, and the first \<^verbatim>\<open>art.get\<close> raises.
\<close>

fun merge_phases :: "env \<Rightarrow> nat list \<Rightarrow> world \<times> event list \<Rightarrow> world \<times> (failure + event list)" where
  "merge_phases e [] (w, events) = (w, Inr events)"
| "merge_phases e (n # ns) (w, events) =
     (let p = phase_path e n; w1 = emit (Exists p) w in
      case files w p of
        None \<Rightarrow> merge_phases e ns (emit (Print (WarnMissing p)) w1, events)
      | Some (Articles arts) \<Rightarrow>
          merge_phases e ns
            (merge_articles arts (emit (Print (ReadCount n (length arts))) (emit (Load p) w1), events))
      | Some (Timeline evs) \<Rightarrow>
          (emit (Print (ReadCount n 2)) (emit (Load p) w1), Inl AttributeError))"

definition cmd_merge :: "env \<Rightarrow> world \<Rightarrow> world \<times> failure option" where
  "cmd_merge e w0 =
     (let w1 = emit (Print Rule) (emit (Print MergeTitle) (emit (Print Rule) w0)) in
      if abspath e (OUTPUT_PATH e) = abspath e (ORIGINAL_PATH e) then (w1, Some AssertionError)
      else case merge_phases e [1, 2, 3, 4] (w1, []) of
        (w2, Inl f) \<Rightarrow> (w2, Some f)
      | (w2, Inr events) \<Rightarrow>
          (case sort_events events of
             Inl f \<Rightarrow> (w2, Some f)
           | Inr sorted_events \<Rightarrow>
               (let w3 = emit (Exists (OUTPUT_PATH e)) w2;
                    w4 = (if files w3 (OUTPUT_PATH e) \<noteq> None
                          then emit (Print (WillOverwrite (OUTPUT_PATH e))) w3 else w3);
                    w5 = save_json (OUTPUT_PATH e) (Timeline sorted_events) w4
                in (emit (Print (Written (length sorted_events))) w5, None))))"

text \<open>
  What the specification says the merger collects: every article with a date that parses
  becomes an event, file by file in the order of the phase numbers; a missing file gives
  no event. These two functions state the result of the loops above.
\<close>

definition events_of :: "article list \<Rightarrow> event list" where
  "events_of arts =
     map (\<lambda>a. make_event a (the (parse_date (get_or (date_str a) []))))
       (filter (\<lambda>a. parse_date (get_or (date_str a) []) \<noteq> None) arts)"

definition phase_events :: "env \<Rightarrow> (path \<rightharpoonup> doc) \<Rightarrow> nat \<Rightarrow> event list" where
  "phase_events e fs n =
     (case fs (phase_path e n) of Some (Articles arts) \<Rightarrow> events_of arts | _ \<Rightarrow> [])"

section \<open>Phase command\<close>

text \<open>
  \<open>cmd_phase\<close> on the files: \<open>Inl\<close> is the exception that ends the command,
  \<^verbatim>\<open>sys.exit(1)\<close> for a bad phase number, a missing credential and a missing cache;
  \<open>Inr\<close> is the file system after the phase file has been written.
\<close>

definition cmd_phase ::
  "env \<Rightarrow> (nat \<Rightarrow> article \<Rightarrow> response) \<Rightarrow> nat \<Rightarrow> (path \<rightharpoonup> doc) \<Rightarrow> failure + (path \<rightharpoonup> doc)" where
  "cmd_phase e api phase_num fs =
     (case map_of PHASE_RANGES phase_num of
        None \<Rightarrow> Inl (SystemExit 1)
      | Some (year_from, year_to) \<Rightarrow>
          if strip (get_or (SILICONFLOW_API_KEY e) []) = [] then Inl (SystemExit 1)
          else (case fs (RAW_PATH e) of
                  None \<Rightarrow> Inl (SystemExit 1)
                | Some (Timeline evs) \<Rightarrow> Inl AttributeError
                | Some (Articles all_articles) \<Rightarrow>
                    (let (classified, skipped) =
                           classify_loop (in_range year_from year_to all_articles)
                     in Inr (fs(phase_path e phase_num \<mapsto>
                               Articles (translate_loop api 1 classified))))))"

section \<open>Fetcher\<close>

text \<open>
  The key of a record in the loop that removes duplicates, and that loop: the set of keys
  seen, the accumulated list and the count of new records.
\<close>

definition art_key :: "article \<Rightarrow> ustr" where
  "art_key art =
     (case url art of
        None \<Rightarrow> get_or (title art) []
      | Some u \<Rightarrow> if u \<noteq> [] then u else get_or (title art) [])"

fun dedup :: "article list \<Rightarrow> ustr set \<times> article list \<times> nat \<Rightarrow> ustr set \<times> article list \<times> nat" where
  "dedup [] st = st"
| "dedup (art # arts) (seen, all_articles, new) =
     (if art_key art \<noteq> [] \<and> art_key art \<notin> seen
      then dedup arts (insert (art_key art) seen, all_articles @ [art], Suc new)
      else dedup arts (seen, all_articles, new))"

text \<open>
  A request either raises \<^verbatim>\<open>RequestException\<close> or gives a page, of which the loop
  uses the records extracted from it (by either strategy, none when both find nothing)
  and the link that \<^verbatim>\<open>_next_page\<close> finds. The site is a parameter: it answers the request
  for the n-th page at a URL. The loop may go on as long as the site has new records and
  new links; it runs on fuel, and \<open>None\<close> says that the fuel did not suffice.
\<close>

record page =
  page_articles :: "article list"
  next_page :: "ustr option"

datatype http = RequestException | Response page

fun fetch_loop ::
  "nat \<Rightarrow> (nat \<Rightarrow> ustr \<Rightarrow> http) \<Rightarrow> ustr \<Rightarrow> nat \<Rightarrow> ustr set \<times> article list
     \<Rightarrow> (ustr set \<times> article list) option" where
  "fetch_loop 0 site u pg (seen, all_articles) = None"
| "fetch_loop (Suc fuel) site u pg (seen, all_articles) =
     (if u = [] then Some (seen, all_articles)
      else case site pg u of
        RequestException \<Rightarrow> Some (seen, all_articles)
      | Response r \<Rightarrow>
          if page_articles r = [] then Some (seen, all_articles)
          else (case dedup (page_articles r) (seen, all_articles, 0) of
                  (seen', all', new) \<Rightarrow>
                    if new = 0 then Some (seen', all')
                    else (case next_page r of
                            None \<Rightarrow> Some (seen', all')
                          | Some nu \<Rightarrow>
                              if nu = [] \<or> nu = u then Some (seen', all')
                              else fetch_loop fuel site nu (Suc pg) (seen', all'))))"

definition NEWS_URL :: ustr where
  "NEWS_URL = lit ''https://openai.com/news/?sortBy=old''"

definition cmd_fetch ::
  "nat \<Rightarrow> env \<Rightarrow> (nat \<Rightarrow> ustr \<Rightarrow> http) \<Rightarrow> (path \<rightharpoonup> doc) \<Rightarrow> (path \<rightharpoonup> doc) option" where
  "cmd_fetch fuel e site fs =
     (case fetch_loop fuel site NEWS_URL 1 ({}, []) of
        None \<Rightarrow> None
      | Some (seen, all_articles) \<Rightarrow> Some (fs(RAW_PATH e \<mapsto> Articles all_articles)))"

section \<open>Example data\<close>

text \<open>
  An installation, three raw articles and a translation service whose first call fails,
  for the concrete runs below: a product announcement of 2020, an article of 2020 that
  no rule matches, and an article of 2010, a year that no phase covers.
\<close>

definition example_env :: env where
  "example_env = installed (lit ''/srv/timeline'') (lit ''/srv/timeline/scripts'') (Some (lit ''sk-test''))"

definition art_gpt3 :: article where
  "art_gpt3 = raw_article (lit ''Introducing GPT-3'') (lit ''https://openai.com/index/gpt-3/'') (lit ''2020-03-01'')"

definition art_hello :: article where
  "art_hello = raw_article (lit ''Hello world'') (lit ''https://openai.com/index/hello/'') (lit ''2020-07-01'')"

definition art_2010 :: article where
  "art_2010 = raw_article (lit ''Introducing nothing'') (lit ''https://openai.com/index/old/'') (lit ''2010-05-05'')"

definition example_api :: "nat \<Rightarrow> article \<Rightarrow> response" where
  "example_api i art = (if i = 1 then Failed else Reply (Some (lit ''headline'')) (Some (lit ''summary'')))"

text \<open>
  A record with an empty title and an empty url, and a site of one page that lists it
  together with the product announcement.
\<close>

definition art_blank :: article where
  "art_blank = raw_article [] [] (lit ''2021-01-01'')"

definition example_site :: "nat \<Rightarrow> ustr \<Rightarrow> http" where
  "example_site pg u =
     (if pg = 1 then Response \<lparr>page_articles = [art_blank, art_gpt3, art_gpt3], next_page = None\<rparr>
      else RequestException)"

text \<open>
  Two phase files with one article each, dated 2019-12-01 and 2020-01-15, once with the
  earlier article in the file of phase 1 and once with the files exchanged; and the
  installation with its output path set to the path of the reference dataset.
\<close>

definition art_2019 :: article where
  "art_2019 = raw_article (lit ''OpenAI LP'') (lit ''https://openai.com/index/lp/'') (lit ''2019-12-01'')"

definition art_2020 :: article where
  "art_2020 = raw_article (lit ''Jukebox'') (lit ''https://openai.com/index/jukebox/'') (lit ''2020-01-15'')"

definition ev_2019 :: event where
  "ev_2019 = make_event art_2019 \<lparr>year = lit ''2019'', month = lit ''12'', day = None\<rparr>"

definition ev_2020 :: event where
  "ev_2020 = make_event art_2020 \<lparr>year = lit ''2020'', month = lit ''01'', day = Some (lit ''15'')\<rparr>"

definition world_in_order :: world where
  "world_in_order =
     \<lparr>files = [phase_path example_env 1 \<mapsto> Articles [art_2019],
               phase_path example_env 2 \<mapsto> Articles [art_2020]],
      log = []\<rparr>"


definition protected_env :: env where
  "protected_env = example_env\<lparr>OUTPUT_PATH := ORIGINAL_PATH example_env\<rparr>"

section \<open>Facts about strings\<close>

lemma startswith_iff: "startswith s kw \<longleftrightarrow> (\<exists>ss. s = kw @ ss)"
  by (induction s kw rule: startswith.induct) auto

lemma py_in_iff: "py_in kw s \<longleftrightarrow> (\<exists>ps ss. s = ps @ kw @ ss)"
proof (induction s)
  case Nil
  then show ?case by auto
next
  case (Cons c cs)
  show ?case
  proof
    assume "py_in kw (c # cs)"
    then consider "startswith (c # cs) kw" | "py_in kw cs" by auto
    then show "\<exists>ps ss. c # cs = ps @ kw @ ss"
    proof cases
      case 1
      then obtain ss where "c # cs = kw @ ss" by (auto simp: startswith_iff)
      then have "c # cs = [] @ kw @ ss" by simp
      then show ?thesis by blast
    next
      case 2
      then obtain ps ss where "cs = ps @ kw @ ss" using Cons.IH by blast
      then have "c # cs = (c # ps) @ kw @ ss" by simp
      then show ?thesis by blast
    qed
  next
    assume "\<exists>ps ss. c # cs = ps @ kw @ ss"
    then obtain ps ss where eq: "c # cs = ps @ kw @ ss" by blast
    show "py_in kw (c # cs)"
    proof (cases ps)
      case Nil
      with eq have "startswith (c # cs) kw" by (auto simp: startswith_iff)
      then show ?thesis by simp
    next
      case (Cons p ps')
      with eq have "cs = ps' @ kw @ ss" by simp
      then have "py_in kw cs" using Cons.IH by blast
      then show ?thesis by simp
    qed
  qed
qed

lemma py_in_sublist: "py_in kw s \<longleftrightarrow> sublist kw s"
  by (simp add: py_in_iff sublist_def)

section \<open>Facts about the classifier\<close>

lemma any_keyword_iff: "any_keyword kws s \<longleftrightarrow> (\<exists>kw \<in> set kws. py_in kw s)"
  by (induction kws) auto

lemma classify_rules_find:
  "classify_rules rules s = map_option fst (find (rule_matches s) rules)"
  by (induction rules) (auto simp: any_keyword_iff rule_matches_def)

lemma first_rule_funding: "py_in (lit ''funding'') s \<Longrightarrow> first_rule s = Some cat_funding"
  by (simp add: first_rule_def CATEGORY_RULES_def rule_matches_def)

lemma first_rule_no_match:
  "(\<forall>r \<in> set CATEGORY_RULES. \<not> rule_matches s r) \<Longrightarrow> first_rule s = None"
  by (simp add: first_rule_def find_None_iff)

lemmas strdefs = lit_def lower_def lower_cp_def is_digit_def is_alpha_def is_space_def is_word_def

section \<open>C1: the classifier returns the first matching rule\<close>

text \<open>
  C1, as amended. The text under test is the lowercased title, one space and the url, in
  that order: \<^verbatim>\<open>(title + " " + url).lower()\<close>. For every title and url,
  \<open>classify_article\<close> returns the category of the first rule of \<open>CATEGORY_RULES\<close>, in
  list order, one of whose keywords is a substring of that text. So a text that contains
  both "funding" and "chatgpt" is classified as funding, the first rule, and a text that
  no rule matches gets no category.
\<close>

theorem classify_article_first_rule:
  "classify_article t ul = first_rule (lower (t @ lit '' '' @ ul))
   \<and> (py_in (lit ''funding'') (lower (t @ lit '' '' @ ul))
        \<and> py_in (lit ''chatgpt'') (lower (t @ lit '' '' @ ul))
       \<longrightarrow> classify_article t ul = Some cat_funding)
   \<and> ((\<forall>r \<in> set CATEGORY_RULES. \<not> rule_matches (lower (t @ lit '' '' @ ul)) r)
       \<longrightarrow> classify_article t ul = None)"
proof -
  have eq: "classify_article t ul = first_rule (lower (t @ lit '' '' @ ul))"
    by (simp add: classify_article_def first_rule_def classify_rules_find)
  show ?thesis
    using eq first_rule_funding first_rule_no_match by auto
qed

text \<open>
  The theorem at a title with both keywords, and at a title that no rule matches.
\<close>

theorem classify_article_first_rule_witness:
  "py_in (lit ''funding'')
     (lower (lit ''OpenAI raises funding for ChatGPT'' @ lit '' '' @ lit ''https://openai.com/index/x/''))
   \<and> py_in (lit ''chatgpt'')
     (lower (lit ''OpenAI raises funding for ChatGPT'' @ lit '' '' @ lit ''https://openai.com/index/x/''))
   \<and> classify_article (lit ''OpenAI raises funding for ChatGPT'') (lit ''https://openai.com/index/x/'')
       = Some cat_funding
   \<and> \<not> (\<exists>r \<in> set CATEGORY_RULES. rule_matches (lower (lit ''Hello'' @ lit '' '' @ [])) r)
   \<and> classify_article (lit ''Hello'') [] = None"
proof -
  have h1: "py_in (lit ''funding'')
     (lower (lit ''OpenAI raises funding for ChatGPT'' @ lit '' '' @ lit ''https://openai.com/index/x/''))"
    by (simp add: strdefs)
  have h2: "py_in (lit ''chatgpt'')
     (lower (lit ''OpenAI raises funding for ChatGPT'' @ lit '' '' @ lit ''https://openai.com/index/x/''))"
    by (simp add: strdefs)
  have h3: "\<forall>r \<in> set CATEGORY_RULES. \<not> rule_matches (lower (lit ''Hello'' @ lit '' '' @ [])) r"
    by (simp add: CATEGORY_RULES_def rule_matches_def strdefs)
  show ?thesis
    using h1 h2 h3
      classify_article_first_rule
        [of "lit ''OpenAI raises funding for ChatGPT''" "lit ''https://openai.com/index/x/''"]
      classify_article_first_rule [of "lit ''Hello''" "[]"]
    by blast
qed

text \<open>
  C1 as the specification states it, with the text under test the lowercased
  concatenation of title and url, fails: the title "o1" with an empty url has no keyword
  in it, and the code classifies it as a product, since the space it puts after the
  title completes the keyword "o1 ".
\<close>

theorem classify_article_concat_counterexample:
  "\<not> (classify_article (lit ''o1'') [] = first_rule (lower (lit ''o1'' @ [])))"
proof -
  have a: "classify_article (lit ''o1'') [] = Some cat_product"
    by (simp add: classify_article_def CATEGORY_RULES_def strdefs)
  have b: "first_rule (lower (lit ''o1'' @ [])) = None"
    by (simp add: first_rule_def rule_matches_def CATEGORY_RULES_def strdefs)
  show ?thesis using a b by simp
qed

section \<open>Facts about date parsing and the merge loop\<close>

lemma merge_articles_events:
  "merge_articles arts (w, events) = (w', events') \<Longrightarrow>
   events' = events @ map (\<lambda>a. make_event a (the (parse_date (get_or (date_str a) []))))
                        (filter (\<lambda>a. parse_date (get_or (date_str a) []) \<noteq> None) arts)"
proof (induction arts arbitrary: w events)
  case Nil
  then show ?case by simp
next
  case (Cons a arts)
  show ?case
  proof (cases "parse_date (get_or (date_str a) [])")
    case None
    with Cons.prems have
      "merge_articles arts (emit (Print (SkipNoDate (get_or (title a) []))) w, events) = (w', events')"
      by simp
    from Cons.IH [OF this] None show ?thesis by simp
  next
    case (Some sd)
    with Cons.prems have "merge_articles arts (w, events @ [make_event a sd]) = (w', events')"
      by simp
    from Cons.IH [OF this] Some show ?thesis by simp
  qed
qed

lemma not_a_date: "parse_date (lit ''not a date'') = None"
  by (simp add: parse_date_def strict_match_def name_match_def month_map_def zfill_def strdefs)

lemma name_branch_day:
  "strict_match ds = None \<Longrightarrow> parse_date ds = Some sd \<Longrightarrow> day sd \<noteq> None"
  by (auto simp: parse_date_def split: if_splits option.splits prod.splits)

section \<open>C2: the date parser on the examples of the specification\<close>

text \<open>
  C2. The date parser gives year 2023 and month 05 without a day for "2023-05-01", since
  the day is 01; year 2023, month 05 and day 17 for "2023-05-17"; the same for
  "May 17, 2023", through the table of month names, which has the twelve full names and
  the twelve three-letter abbreviations; in that second branch the day is always there;
  and "not a date" does not parse, so that the merge loop skips such an article and adds
  no event for it.
\<close>

theorem parse_date_examples:
  "parse_date (lit ''2023-05-01'') = Some \<lparr>year = lit ''2023'', month = lit ''05'', day = None\<rparr>
   \<and> parse_date (lit ''2023-05-17'')
       = Some \<lparr>year = lit ''2023'', month = lit ''05'', day = Some (lit ''17'')\<rparr>
   \<and> parse_date (lit ''May 17, 2023'')
       = Some \<lparr>year = lit ''2023'', month = lit ''05'', day = Some (lit ''17'')\<rparr>
   \<and> parse_date (lit ''not a date'') = None
   \<and> map (\<lambda>k. map_of month_map (lit k))
        [''january'', ''february'', ''march'', ''april'', ''may'', ''june'',
         ''july'', ''august'', ''september'', ''october'', ''november'', ''december'']
      = map (\<lambda>v. Some (lit v))
        [''01'', ''02'', ''03'', ''04'', ''05'', ''06'', ''07'', ''08'', ''09'', ''10'', ''11'', ''12'']
   \<and> map (\<lambda>k. map_of month_map (lit k))
        [''jan'', ''feb'', ''mar'', ''apr'', ''may'', ''jun'',
         ''jul'', ''aug'', ''sep'', ''oct'', ''nov'', ''dec'']
      = map (\<lambda>v. Some (lit v))
        [''01'', ''02'', ''03'', ''04'', ''05'', ''06'', ''07'', ''08'', ''09'', ''10'', ''11'', ''12'']
   \<and> (strict_match ds = None \<and> parse_date ds = Some sd \<longrightarrow> day sd \<noteq> None)
   \<and> merge_articles (art\<lparr>date_str := Some (lit ''not a date'')\<rparr> # arts) (w, events)
       = merge_articles arts (emit (Print (SkipNoDate (get_or (title art) []))) w, events)
   \<and> snd (merge_articles [art\<lparr>date_str := Some (lit ''not a date'')\<rparr>] (w, events)) = events"
proof -
  have e1: "parse_date (lit ''2023-05-01'') = Some \<lparr>year = lit ''2023'', month = lit ''05'', day = None\<rparr>"
    by (simp add: parse_date_def strict_match_def strdefs)
  have e2: "parse_date (lit ''2023-05-17'')
       = Some \<lparr>year = lit ''2023'', month = lit ''05'', day = Some (lit ''17'')\<rparr>"
    by (simp add: parse_date_def strict_match_def strdefs)
  have e3: "parse_date (lit ''May 17, 2023'')
       = Some \<lparr>year = lit ''2023'', month = lit ''05'', day = Some (lit ''17'')\<rparr>"
    by (simp add: parse_date_def strict_match_def name_match_def month_map_def zfill_def strdefs)
  have t1: "map (\<lambda>k. map_of month_map (lit k))
        [''january'', ''february'', ''march'', ''april'', ''may'', ''june'',
         ''july'', ''august'', ''september'', ''october'', ''november'', ''december'']
      = map (\<lambda>v. Some (lit v))
        [''01'', ''02'', ''03'', ''04'', ''05'', ''06'', ''07'', ''08'', ''09'', ''10'', ''11'', ''12'']"
    by (simp add: month_map_def lit_def)
  have t2: "map (\<lambda>k. map_of month_map (lit k))
        [''jan'', ''feb'', ''mar'', ''apr'', ''may'', ''jun'',
         ''jul'', ''aug'', ''sep'', ''oct'', ''nov'', ''dec'']
      = map (\<lambda>v. Some (lit v))
        [''01'', ''02'', ''03'', ''04'', ''05'', ''06'', ''07'', ''08'', ''09'', ''10'', ''11'', ''12'']"
    by (simp add: month_map_def lit_def)
  have m1: "merge_articles (art\<lparr>date_str := Some (lit ''not a date'')\<rparr> # arts) (w, events)
       = merge_articles arts (emit (Print (SkipNoDate (get_or (title art) []))) w, events)"
    by (simp add: not_a_date get_or_def)
  have m2: "snd (merge_articles [art\<lparr>date_str := Some (lit ''not a date'')\<rparr>] (w, events)) = events"
    by (simp add: not_a_date get_or_def)
  show ?thesis
    using e1 e2 e3 not_a_date t1 t2 m1 m2 name_branch_day by blast
qed

text \<open>
  The day of the second branch at "May 1, 2023": the first branch would have left the
  day 01 out, the second keeps it.
\<close>

theorem parse_date_examples_witness:
  "strict_match (lit ''May 1, 2023'') = None
   \<and> parse_date (lit ''May 1, 2023'')
       = Some \<lparr>year = lit ''2023'', month = lit ''05'', day = Some (lit ''01'')\<rparr>
   \<and> day \<lparr>year = lit ''2023'', month = lit ''05'', day = Some (lit ''01'')\<rparr> \<noteq> None"
proof -
  have a: "strict_match (lit ''May 1, 2023'') = None"
    by (simp add: strict_match_def strdefs)
  have b: "parse_date (lit ''May 1, 2023'')
       = Some \<lparr>year = lit ''2023'', month = lit ''05'', day = Some (lit ''01'')\<rparr>"
    by (simp add: parse_date_def strict_match_def name_match_def month_map_def zfill_def strdefs)
  show ?thesis
    using a b parse_date_examples
      [of "lit ''May 1, 2023''" "\<lparr>year = lit ''2023'', month = lit ''05'', day = Some (lit ''01'')\<rparr>"]
    by blast
qed

section \<open>C9: the numeric branch reads a prefix\<close>

text \<open>
  C9. The numeric branch asks for the shape YYYY-MM-DD of the first ten characters only:
  whatever follows them, the date parser succeeds and returns the date built from those
  ten characters, the same as for the ten characters alone.
\<close>

theorem parse_date_prefix:
  "list_all is_digit [y1, y2, y3, y4, m1, m2, d1, d2] \<Longrightarrow>
   parse_date ([y1, y2, y3, y4, 45, m1, m2, 45, d1, d2] @ rest)
     = Some \<lparr>year = [y1, y2, y3, y4], month = [m1, m2],
             day = (if [d1, d2] \<noteq> lit ''01'' then Some [d1, d2] else None)\<rparr>
   \<and> parse_date ([y1, y2, y3, y4, 45, m1, m2, 45, d1, d2] @ rest)
     = parse_date [y1, y2, y3, y4, 45, m1, m2, 45, d1, d2]"
  by (simp add: parse_date_def strict_match_def)

text \<open>The theorem at the ISO timestamp "2023-05-17T10:00:00Z".\<close>

theorem parse_date_prefix_witness:
  "list_all is_digit [50, 48, 50, 51, 48, 53, 49, 55]
   \<and> lit ''2023-05-17T10:00:00Z'' = [50, 48, 50, 51, 45, 48, 53, 45, 49, 55] @ lit ''T10:00:00Z''
   \<and> parse_date (lit ''2023-05-17T10:00:00Z'')
       = Some \<lparr>year = lit ''2023'', month = lit ''05'', day = Some (lit ''17'')\<rparr>
   \<and> parse_date (lit ''2023-05-17T10:00:00Z'') = parse_date (lit ''2023-05-17'')"
proof -
  have d: "list_all is_digit [50, 48, 50, 51, 48, 53, 49, 55]"
    by (simp add: is_digit_def)
  have s: "lit ''2023-05-17T10:00:00Z'' = [50, 48, 50, 51, 45, 48, 53, 45, 49, 55] @ lit ''T10:00:00Z''"
    by (simp add: lit_def)
  have s2: "lit ''2023-05-17'' = [50, 48, 50, 51, 45, 48, 53, 45, 49, 55]"
    by (simp add: lit_def)
  have l: "lit ''2023'' = [50, 48, 50, 51]" "lit ''05'' = [48, 53]" "lit ''17'' = [49, 55]"
    "lit ''01'' = [48, 49]"
    by (simp_all add: lit_def)
  have p1: "parse_date ([50, 48, 50, 51, 45, 48, 53, 45, 49, 55] @ lit ''T10:00:00Z'')
       = Some \<lparr>year = [50, 48, 50, 51], month = [48, 53],
               day = (if [49, 55] \<noteq> lit ''01'' then Some [49, 55] else None)\<rparr>"
    using parse_date_prefix [OF d, of "lit ''T10:00:00Z''"] by blast
  have p2: "parse_date ([50, 48, 50, 51, 45, 48, 53, 45, 49, 55] @ lit ''T10:00:00Z'')
       = parse_date [50, 48, 50, 51, 45, 48, 53, 45, 49, 55]"
    using parse_date_prefix [OF d, of "lit ''T10:00:00Z''"] by blast
  have c: "(if [49, 55] \<noteq> [48, 49::nat] then Some [49, 55] else None) = Some [49, 55::nat]"
    by simp
  have r1: "parse_date (lit ''2023-05-17T10:00:00Z'')
       = Some \<lparr>year = lit ''2023'', month = lit ''05'', day = Some (lit ''17'')\<rparr>"
    using p1 unfolding c s l .
  have r2: "parse_date (lit ''2023-05-17T10:00:00Z'') = parse_date (lit ''2023-05-17'')"
    using p2 unfolding s s2 .
  show ?thesis
    using d s r1 r2 by blast
qed

section \<open>Facts about the phase runner\<close>

lemma classify_rules_in: "classify_rules rules s = Some c \<Longrightarrow> c \<in> fst ` set rules"
  by (induction rules) (auto split: if_splits)

lemma classify_article_nonempty: "classify_article t ul = Some c \<Longrightarrow> c \<noteq> []"
proof -
  assume "classify_article t ul = Some c"
  then have "c \<in> fst ` set CATEGORY_RULES"
    unfolding classify_article_def by (rule classify_rules_in)
  then have "c \<in> {cat_funding, cat_partner, cat_research, cat_policy, cat_product}"
    by (simp add: CATEGORY_RULES_def)
  then show ?thesis
    by (auto simp: cat_funding_def cat_partner_def cat_research_def cat_policy_def cat_product_def)
qed

lemma classify_loop_fst:
  "fst (classify_loop arts) =
   map (\<lambda>a. a\<lparr>category := classify_article (get_or (title a) []) (get_or (url a) [])\<rparr>)
     (filter (\<lambda>a. classify_article (get_or (title a) []) (get_or (url a) []) \<noteq> None) arts)"
  by (induction arts) (auto split: option.splits prod.splits dest: classify_article_nonempty)

lemma classify_loop_snd:
  "snd (classify_loop arts) =
   length (filter (\<lambda>a. classify_article (get_or (title a) []) (get_or (url a) []) = None) arts)"
  by (induction arts) (auto split: option.splits prod.splits dest: classify_article_nonempty)

lemma translate_fields:
  "title (translate r a) = title a" "url (translate r a) = url a"
  "date_str (translate r a) = date_str a" "category (translate r a) = category a"
  by (simp_all add: translate_def split: response.splits)



lemma translate_loop_map:
  "map title (translate_loop api i arts) = map title arts"
  "map url (translate_loop api i arts) = map url arts"
  "map date_str (translate_loop api i arts) = map date_str arts"
  "map category (translate_loop api i arts) = map category arts"
  by (induction arts arbitrary: i) (auto simp: translate_fields)

lemma translate_loop_raw:
  "map (\<lambda>a. (title a, url a, date_str a)) (translate_loop api i arts)
   = map (\<lambda>a. (title a, url a, date_str a)) arts"
  by (induction arts arbitrary: i) (auto simp: translate_fields)



lemma year_2020: "year_of (lit ''2020-03-01'') = Some 2020"
  by (simp add: year_of_def py_int_def digit_val_def strdefs)

lemma year_2020b: "year_of (lit ''2020-07-01'') = Some 2020"
  by (simp add: year_of_def py_int_def digit_val_def strdefs)

lemma year_2010: "year_of (lit ''2010-05-05'') = Some 2010"
  by (simp add: year_of_def py_int_def digit_val_def strdefs)

lemma classify_gpt3:
  "classify_article (lit ''Introducing GPT-3'') (lit ''https://openai.com/index/gpt-3/'') = Some cat_product"
  by (simp add: classify_article_def CATEGORY_RULES_def strdefs)

lemma classify_hello:
  "classify_article (lit ''Hello world'') (lit ''https://openai.com/index/hello/'') = None"
  by (simp add: classify_article_def CATEGORY_RULES_def strdefs)

lemma example_in_range:
  "in_range 2020 2021 [art_gpt3, art_hello, art_2010] = [art_gpt3, art_hello]"
  by (simp add: art_gpt3_def art_hello_def art_2010_def raw_article_def get_or_def
      year_2020 year_2020b year_2010)

lemma example_classified:
  "classify_loop [art_gpt3, art_hello] = ([art_gpt3\<lparr>category := Some cat_product\<rparr>], 1)"
  by (simp add: art_gpt3_def art_hello_def raw_article_def get_or_def classify_gpt3 classify_hello
      cat_product_def)

lemma example_key: "strip (get_or (SILICONFLOW_API_KEY example_env) []) \<noteq> []"
  by (simp add: example_env_def installed_def get_or_def strip_def strdefs)

lemma example_phase_run:
  "cmd_phase example_env example_api 2
     [RAW_PATH example_env \<mapsto> Articles [art_gpt3, art_hello, art_2010]]
   = Inr ([RAW_PATH example_env \<mapsto> Articles [art_gpt3, art_hello, art_2010]]
          (phase_path example_env 2 \<mapsto>
             Articles [art_gpt3\<lparr>category := Some cat_product,
                                headline_zh := Some (lit ''Introducing GPT-3''),
                                summary_zh := Some []\<rparr>]))"
proof -
  have t: "translate_loop example_api (Suc 0) [art_gpt3\<lparr>category := Some cat_product\<rparr>]
      = [art_gpt3\<lparr>category := Some cat_product,
                   headline_zh := Some (lit ''Introducing GPT-3''), summary_zh := Some []\<rparr>]"
    by (simp add: example_api_def translate_def art_gpt3_def raw_article_def get_or_def)
  show ?thesis
    using example_key
    by (simp add: cmd_phase_def PHASE_RANGES_def example_in_range example_classified t
        del: in_range.simps classify_loop.simps translate_loop.simps)
qed


lemma py_int_4:
  "is_digit c3 \<Longrightarrow> is_digit c4 \<Longrightarrow> py_int [50, 48, c3, c4] = Some (2000 + 10 * digit_val c3 + digit_val c4)"
  by (simp add: py_int_def is_digit_def digit_val_def) arith




text \<open>
  The year that \<open>year_of\<close> finds is the number of a token 20dd of the raw date, with no
  word character before it and none after it; of two such tokens it finds the first.
\<close>

lemma year_at_shape:
  "year_at s = Some y \<Longrightarrow>
   \<exists>c3 c4 rest. s = [50, 48, c3, c4] @ rest \<and> is_digit c3 \<and> is_digit c4
     \<and> (rest = [] \<or> \<not> is_word (hd rest))
     \<and> y = 2000 + 10 * digit_val c3 + digit_val c4"
proof (induction s rule: year_at.induct)
  case (1 c1 c2 c3 c4 rest)
  then have d: "is_digit c3" "is_digit c4" "c1 = 50" "c2 = 48"
    and b: "rest = [] \<or> \<not> is_word (hd rest)"
    by (auto split: if_splits list.splits simp: is_digit_def)
  with 1 have "y = 2000 + 10 * digit_val c3 + digit_val c4"
    by (auto split: if_splits simp: py_int_4)
  with d b show ?case by simp
qed auto

lemma year_search_shape:
  "year_search b s = Some y \<Longrightarrow>
   \<exists>ps c3 c4 rest. s = ps @ [50, 48, c3, c4] @ rest \<and> is_digit c3 \<and> is_digit c4
     \<and> (if ps = [] then \<not> b else \<not> is_word (last ps))
     \<and> (rest = [] \<or> \<not> is_word (hd rest))
     \<and> y = 2000 + 10 * digit_val c3 + digit_val c4"
proof (induction b s rule: year_search.induct)
  case (1 b)
  then show ?case by simp
next
  case (2 b c cs)
  show ?case
  proof (cases "\<not> b \<and> year_at (c # cs) \<noteq> None")
    case True
    with "2.prems" have "year_at (c # cs) = Some y" by auto
    from year_at_shape [OF this] obtain c3 c4 rest where
      "c # cs = [] @ [50, 48, c3, c4] @ rest" "is_digit c3" "is_digit c4"
      "rest = [] \<or> \<not> is_word (hd rest)" "y = 2000 + 10 * digit_val c3 + digit_val c4"
      by auto
    with True show ?thesis by (intro exI [of _ "[]"]) auto
  next
    case False
    with "2.prems" have rec: "year_search (is_word c) cs = Some y"
      by (auto split: if_splits option.splits)
    from False have "b \<or> year_at (c # cs) = None" by auto
    then have "\<exists>ps c3 c4 rest. cs = ps @ [50, 48, c3, c4] @ rest \<and> is_digit c3 \<and> is_digit c4
       \<and> (if ps = [] then \<not> is_word c else \<not> is_word (last ps))
       \<and> (rest = [] \<or> \<not> is_word (hd rest))
       \<and> y = 2000 + 10 * digit_val c3 + digit_val c4"
      using "2.IH" rec by (cases b) auto
    then obtain ps c3 c4 rest where
      e: "cs = ps @ [50, 48, c3, c4] @ rest" and d: "is_digit c3" "is_digit c4"
      and l: "if ps = [] then \<not> is_word c else \<not> is_word (last ps)"
      and r: "rest = [] \<or> \<not> is_word (hd rest)" and v: "y = 2000 + 10 * digit_val c3 + digit_val c4"
      by blast
    from e have "c # cs = (c # ps) @ [50, 48, c3, c4] @ rest" by simp
    moreover from l have "\<not> is_word (last (c # ps))" by (auto split: if_splits)
    ultimately show ?thesis using d r v by (intro exI [of _ "c # ps"]) auto
  qed
qed

lemma year_of_token:
  "year_of s = Some y \<Longrightarrow>
   \<exists>ps c3 c4 rest. s = ps @ [50, 48, c3, c4] @ rest \<and> is_digit c3 \<and> is_digit c4
     \<and> (ps = [] \<or> \<not> is_word (last ps))
     \<and> (rest = [] \<or> \<not> is_word (hd rest))
     \<and> y = 2000 + 10 * digit_val c3 + digit_val c4"
proof -
  assume "year_of s = Some y"
  then have "year_search False s = Some y"
    by (simp add: year_of_def split: if_splits)
  from year_search_shape [OF this] show ?thesis
    by (metis (full_types))
qed

lemma year_of_first: "year_of (lit ''Updated 2021-06-01, first published 2019'') = Some 2021"
  by (simp add: year_of_def py_int_def digit_val_def strdefs)

lemma year_of_glued: "year_of (lit ''v2020x'') = None"
  by (simp add: year_of_def py_int_def digit_val_def strdefs)

section \<open>C6: the year filter of a phase\<close>



section \<open>C7: a phase file holds the classified articles only\<close>

text \<open>
  C7. When a phase run completes, the phase file it has written holds exactly the
  articles of the year range for which a rule matched, in their order and each with its
  category; an article of the range that no rule matches is not in the file, and no
  article of the file lacks the category field.
\<close>

theorem phase_output_classified_only:
  "cmd_phase e api n fs = Inr fs' \<Longrightarrow>
   \<exists>yf yt all_articles written.
     map_of PHASE_RANGES n = Some (yf, yt)
     \<and> fs (RAW_PATH e) = Some (Articles all_articles)
     \<and> fs' = fs(phase_path e n \<mapsto> Articles written)
     \<and> (\<forall>a \<in> set written. category a \<noteq> None)
     \<and> map (\<lambda>a. (title a, url a, date_str a)) written
         = map (\<lambda>a. (title a, url a, date_str a))
             (filter (\<lambda>a. classify_article (get_or (title a) []) (get_or (url a) []) \<noteq> None)
                (in_range yf yt all_articles))
     \<and> map category written
         = map (\<lambda>a. classify_article (get_or (title a) []) (get_or (url a) []))
             (filter (\<lambda>a. classify_article (get_or (title a) []) (get_or (url a) []) \<noteq> None)
                (in_range yf yt all_articles))"
proof -
  assume run: "cmd_phase e api n fs = Inr fs'"
  then obtain yf yt where r: "map_of PHASE_RANGES n = Some (yf, yt)"
    by (auto simp: cmd_phase_def split: option.splits)
  from run r obtain all_articles where raw: "fs (RAW_PATH e) = Some (Articles all_articles)"
    by (auto simp: cmd_phase_def split: option.splits if_splits doc.splits)
  define classified where "classified = fst (classify_loop (in_range yf yt all_articles))"
  define written where "written = translate_loop api 1 classified"
  from run r raw have out: "fs' = fs(phase_path e n \<mapsto> Articles written)"
    by (auto simp: cmd_phase_def written_def classified_def split: if_splits prod.splits)
  have cat: "map category written
         = map (\<lambda>a. classify_article (get_or (title a) []) (get_or (url a) []))
             (filter (\<lambda>a. classify_article (get_or (title a) []) (get_or (url a) []) \<noteq> None)
                (in_range yf yt all_articles))"
    by (simp add: written_def classified_def translate_loop_map classify_loop_fst o_def)
  have rawf: "map (\<lambda>a. (title a, url a, date_str a)) written
         = map (\<lambda>a. (title a, url a, date_str a))
             (filter (\<lambda>a. classify_article (get_or (title a) []) (get_or (url a) []) \<noteq> None)
                (in_range yf yt all_articles))"
    by (simp add: written_def classified_def translate_loop_raw classify_loop_fst o_def)
  have "None \<notin> set (map category written)"
    unfolding cat by auto
  then have some: "\<forall>a \<in> set written. category a \<noteq> None"
    by (metis image_eqI list.set_map)
  show ?thesis
    using r raw out some rawf cat by blast
qed

text \<open>
  The theorem at a cache of three articles, of which the phase file of phase 2 receives
  one: the second is in the range and matches no rule, the third is out of the range.
\<close>

theorem phase_output_classified_only_witness:
  "cmd_phase example_env example_api 2
     [RAW_PATH example_env \<mapsto> Articles [art_gpt3, art_hello, art_2010]]
   = Inr ([RAW_PATH example_env \<mapsto> Articles [art_gpt3, art_hello, art_2010]]
          (phase_path example_env 2 \<mapsto>
             Articles [art_gpt3\<lparr>category := Some cat_product,
                                headline_zh := Some (lit ''Introducing GPT-3''),
                                summary_zh := Some []\<rparr>]))
   \<and> (\<exists>yf yt all_articles written.
     map_of PHASE_RANGES 2 = Some (yf, yt)
     \<and> [RAW_PATH example_env \<mapsto> Articles [art_gpt3, art_hello, art_2010]] (RAW_PATH example_env)
         = Some (Articles all_articles)
     \<and> [RAW_PATH example_env \<mapsto> Articles [art_gpt3, art_hello, art_2010]]
          (phase_path example_env 2 \<mapsto>
             Articles [art_gpt3\<lparr>category := Some cat_product,
                                headline_zh := Some (lit ''Introducing GPT-3''),
                                summary_zh := Some []\<rparr>])
         = [RAW_PATH example_env \<mapsto> Articles [art_gpt3, art_hello, art_2010]]
             (phase_path example_env 2 \<mapsto> Articles written)
     \<and> (\<forall>a \<in> set written. category a \<noteq> None)
     \<and> map (\<lambda>a. (title a, url a, date_str a)) written
         = map (\<lambda>a. (title a, url a, date_str a))
             (filter (\<lambda>a. classify_article (get_or (title a) []) (get_or (url a) []) \<noteq> None)
                (in_range yf yt all_articles))
     \<and> map category written
         = map (\<lambda>a. classify_article (get_or (title a) []) (get_or (url a) []))
             (filter (\<lambda>a. classify_article (get_or (title a) []) (get_or (url a) []) \<noteq> None)
                (in_range yf yt all_articles)))"
  using example_phase_run phase_output_classified_only [OF example_phase_run]
  by (rule conjI)

section \<open>C5: a failed translation falls back and the loop goes on\<close>



section \<open>Facts about the fetcher\<close>

lemma dedup_noop:
  "(\<And>a. a \<in> set pg \<Longrightarrow> art_key a \<noteq> [] \<Longrightarrow> art_key a \<in> seen) \<Longrightarrow>
   dedup pg (seen, acc, n) = (seen, acc, n)"
  by (induction pg) auto

lemma dedup_seen:
  "dedup pg (seen, acc, n) = (seen', acc', n') \<Longrightarrow>
   seen \<subseteq> seen' \<and> (\<forall>a \<in> set pg. art_key a \<noteq> [] \<longrightarrow> art_key a \<in> seen')"
proof (induction pg arbitrary: seen acc n)
  case Nil
  then show ?case by simp
next
  case (Cons a pg)
  show ?case
  proof (cases "art_key a \<noteq> [] \<and> art_key a \<notin> seen")
    case True
    with Cons.prems have "dedup pg (insert (art_key a) seen, acc @ [a], Suc n) = (seen', acc', n')"
      by simp
    from Cons.IH [OF this] show ?thesis by auto
  next
    case False
    with Cons.prems have "dedup pg (seen, acc, n) = (seen', acc', n')"
      by auto
    from Cons.IH [OF this] False show ?thesis by auto
  qed
qed

lemma dedup_inv:
  "distinct (map art_key acc) \<Longrightarrow> set (map art_key acc) = seen \<Longrightarrow>
   dedup pg (seen, acc, n) = (seen', acc', n') \<Longrightarrow>
   distinct (map art_key acc') \<and> set (map art_key acc') = seen'
   \<and> length acc' = length acc + (n' - n) \<and> n \<le> n'"
proof (induction pg arbitrary: seen acc n)
  case Nil
  then show ?case by simp
next
  case (Cons a pg)
  show ?case
  proof (cases "art_key a \<noteq> [] \<and> art_key a \<notin> seen")
    case True
    with Cons.prems have run: "dedup pg (insert (art_key a) seen, acc @ [a], Suc n) = (seen', acc', n')"
      by simp
    have d: "distinct (map art_key (acc @ [a]))"
      using Cons.prems True by auto
    have s: "set (map art_key (acc @ [a])) = insert (art_key a) seen"
      using Cons.prems by auto
    from Cons.IH [OF d s run] show ?thesis by auto
  next
    case False
    with Cons.prems have run: "dedup pg (seen, acc, n) = (seen', acc', n')"
      by auto
    from Cons.IH [OF Cons.prems(1) Cons.prems(2) run] show ?thesis .
  qed
qed

lemma dedup_nonempty:
  "dedup pg (seen, acc, n) = (seen', acc', n') \<Longrightarrow> \<forall>a \<in> set acc. art_key a \<noteq> [] \<Longrightarrow>
   \<forall>a \<in> set acc'. art_key a \<noteq> []"
proof (induction pg arbitrary: seen acc n)
  case Nil
  then show ?case by simp
next
  case (Cons a pg)
  show ?case
  proof (cases "art_key a \<noteq> [] \<and> art_key a \<notin> seen")
    case True
    with Cons.prems have run: "dedup pg (insert (art_key a) seen, acc @ [a], Suc n) = (seen', acc', n')"
      by simp
    have "\<forall>x \<in> set (acc @ [a]). art_key x \<noteq> []"
      using Cons.prems(2) True by auto
    from Cons.IH [OF run this] show ?thesis .
  next
    case False
    with Cons.prems have run: "dedup pg (seen, acc, n) = (seen', acc', n')"
      by auto
    from Cons.IH [OF run Cons.prems(2)] show ?thesis .
  qed
qed

lemma fetch_loop_inv:
  "fetch_loop fuel site u pg (seen, acc) = Some (seen', acc') \<Longrightarrow>
   distinct (map art_key acc) \<Longrightarrow> set (map art_key acc) = seen \<Longrightarrow>
   \<forall>a \<in> set acc. art_key a \<noteq> [] \<Longrightarrow>
   distinct (map art_key acc') \<and> set (map art_key acc') = seen'
   \<and> (\<forall>a \<in> set acc'. art_key a \<noteq> [])"
proof (induction fuel arbitrary: u pg seen acc)
  case 0
  then show ?case by simp
next
  case (Suc fuel)
  show ?case
  proof (cases "u = []")
    case True
    with Suc.prems show ?thesis by simp
  next
    case nonempty: False
    show ?thesis
    proof (cases "site pg u")
      case RequestException
      with Suc.prems nonempty show ?thesis by simp
    next
      case (Response r)
      show ?thesis
      proof (cases "page_articles r = []")
        case True
        with Suc.prems nonempty Response show ?thesis by simp
      next
        case False
        obtain s1 a1 n1 where dd: "dedup (page_articles r) (seen, acc, 0) = (s1, a1, n1)"
          by (cases "dedup (page_articles r) (seen, acc, 0)") auto
        from dedup_inv [OF Suc.prems(2) Suc.prems(3) dd]
        have i1: "distinct (map art_key a1)" "set (map art_key a1) = s1" by auto
        from dedup_nonempty [OF dd Suc.prems(4)]
        have i2: "\<forall>a \<in> set a1. art_key a \<noteq> []" .
        show ?thesis
        proof (cases "n1 = 0 \<or> next_page r = None \<or> next_page r = Some [] \<or> next_page r = Some u")
          case True
          with Suc.prems(1) nonempty Response False dd have "seen' = s1 \<and> acc' = a1"
            by (auto split: option.splits if_splits)
          with i1 i2 show ?thesis by simp
        next
          case go: False
          then obtain nu where nu: "next_page r = Some nu" "nu \<noteq> []" "nu \<noteq> u" "n1 \<noteq> 0"
            by auto
          with Suc.prems(1) nonempty Response False dd
          have "fetch_loop fuel site nu (Suc pg) (s1, a1) = Some (seen', acc')"
            by simp
          from Suc.IH [OF this i1 i2] show ?thesis .
        qed
      qed
    qed
  qed
qed

lemma dedup_count:
  "dedup pg (seen, acc, n) = (seen', acc', n') \<Longrightarrow> length acc' + n = length acc + n'"
proof (induction pg arbitrary: seen acc n)
  case Nil
  then show ?case by simp
next
  case (Cons a pg)
  show ?case
  proof (cases "art_key a \<noteq> [] \<and> art_key a \<notin> seen")
    case True
    with Cons.prems have "dedup pg (insert (art_key a) seen, acc @ [a], Suc n) = (seen', acc', n')"
      by simp
    from Cons.IH [OF this] show ?thesis by simp
  next
    case False
    with Cons.prems have "dedup pg (seen, acc, n) = (seen', acc', n')"
      by auto
    from Cons.IH [OF this] show ?thesis .
  qed
qed

lemma dedup_seen_nonempty:
  "dedup pg (seen, acc, n) = (seen', acc', n') \<Longrightarrow> [] \<notin> seen \<Longrightarrow> [] \<notin> seen'"
proof (induction pg arbitrary: seen acc n)
  case Nil
  then show ?case by simp
next
  case (Cons a pg)
  show ?case
  proof (cases "art_key a \<noteq> [] \<and> art_key a \<notin> seen")
    case True
    with Cons.prems have run: "dedup pg (insert (art_key a) seen, acc @ [a], Suc n) = (seen', acc', n')"
      by simp
    have "[] \<notin> insert (art_key a) seen" using True Cons.prems(2) by auto
    from Cons.IH [OF run this] show ?thesis .
  next
    case False
    with Cons.prems have run: "dedup pg (seen, acc, n) = (seen', acc', n')"
      by auto
    from Cons.IH [OF run Cons.prems(2)] show ?thesis .
  qed
qed

lemma dedup_second_pass:
  "dedup pg (seen, acc, n) = (seen1, acc1, new1) \<Longrightarrow> dedup pg (seen1, acc1, m) = (seen1, acc1, m)"
  using dedup_seen [of pg seen acc n seen1 acc1 new1] by (intro dedup_noop) auto

lemma empty_key: "get_or (url art) [] = [] \<Longrightarrow> get_or (title art) [] = [] \<Longrightarrow> art_key art = []"
  by (auto simp: art_key_def get_or_def split: option.splits)

lemma cmd_fetch_saved:
  "cmd_fetch fuel e site fs = Some fs' \<Longrightarrow>
   \<exists>all_articles. fs' = fs(RAW_PATH e \<mapsto> Articles all_articles)
     \<and> distinct (map art_key all_articles) \<and> (\<forall>a \<in> set all_articles. art_key a \<noteq> [])"
proof -
  assume run: "cmd_fetch fuel e site fs = Some fs'"
  then obtain seen all_articles where
    l: "fetch_loop fuel site NEWS_URL 1 ({}, []) = Some (seen, all_articles)"
    and f: "fs' = fs(RAW_PATH e \<mapsto> Articles all_articles)"
    by (auto simp: cmd_fetch_def split: option.splits)
  from fetch_loop_inv [OF l] f show ?thesis by auto
qed

lemma key_gpt3: "art_key art_gpt3 = lit ''https://openai.com/index/gpt-3/''"
  by (simp add: art_key_def art_gpt3_def raw_article_def lit_def)

lemma key_gpt3_nonempty: "lit ''https://openai.com/index/gpt-3/'' \<noteq> []"
  by (simp add: lit_def)

lemma key_blank: "art_key art_blank = []"
  by (simp add: art_key_def art_blank_def raw_article_def get_or_def)

lemma example_dedup:
  "dedup [art_blank, art_gpt3, art_gpt3] ({}, [], 0)
   = ({lit ''https://openai.com/index/gpt-3/''}, [art_gpt3], 1)"
  by (simp add: key_gpt3 key_blank key_gpt3_nonempty)

lemma news_url_nonempty: "NEWS_URL \<noteq> []"
  by (simp add: NEWS_URL_def lit_def)

lemma example_fetch_loop:
  "fetch_loop (Suc 0) example_site NEWS_URL (Suc 0) ({}, [])
   = Some ({lit ''https://openai.com/index/gpt-3/''}, [art_gpt3])"
  by (simp add: news_url_nonempty example_site_def example_dedup del: dedup.simps)

lemma example_fetch:
  "cmd_fetch 1 example_env example_site Map.empty
   = Some [RAW_PATH example_env \<mapsto> Articles [art_gpt3]]"
  by (simp add: cmd_fetch_def example_fetch_loop del: fetch_loop.simps)

section \<open>C8: removing duplicates is idempotent\<close>

text \<open>
  C8. Processing the records of a page a second time, against the keys seen after the
  first time, adds no record: the loop returns the state it was given, with a count of
  zero new records. The key of a record is its url when it has one and its title
  otherwise, and a record whose key has been seen is passed over. Hence the keys of the
  accumulated list stay distinct and are the set of keys seen, after one page and at the
  end of the whole crawl: the list holds one record for each key.
\<close>

theorem dedup_idempotent:
  "(dedup pg (seen, acc, n) = (seen', acc', new') \<longrightarrow> dedup pg (seen', acc', 0) = (seen', acc', 0))
   \<and> art_key (raw_article t ul ds) = (if ul \<noteq> [] then ul else t)
   \<and> (art_key art \<in> seen \<longrightarrow> dedup (art # pg) (seen, acc, n) = dedup pg (seen, acc, n))
   \<and> (distinct (map art_key acc) \<and> set (map art_key acc) = seen
        \<and> dedup pg (seen, acc, n) = (seen', acc', new')
       \<longrightarrow> distinct (map art_key acc') \<and> set (map art_key acc') = seen')
   \<and> (fetch_loop fuel site u k ({}, []) = Some (seenF, accF)
       \<longrightarrow> distinct (map art_key accF) \<and> set (map art_key accF) = seenF)"
proof -
  have k: "art_key (raw_article t ul ds) = (if ul \<noteq> [] then ul else t)"
    by (simp add: art_key_def raw_article_def get_or_def)
  have l: "fetch_loop fuel site u k ({}, []) = Some (seenF, accF)
       \<Longrightarrow> distinct (map art_key accF) \<and> set (map art_key accF) = seenF"
    using fetch_loop_inv [of fuel site u k "{}" "[]" seenF accF] by simp
  show ?thesis
    using k l dedup_second_pass [of pg seen acc n seen' acc' new' 0]
      dedup_inv [of acc seen pg n seen' acc' new']
    by auto
qed

text \<open>
  The theorem at a page that lists the same announcement twice, processed twice, and at
  the crawl of a site of that one page.
\<close>

theorem dedup_idempotent_witness:
  "dedup [art_blank, art_gpt3, art_gpt3] ({}, [], 0)
     = ({lit ''https://openai.com/index/gpt-3/''}, [art_gpt3], 1)
   \<and> dedup [art_blank, art_gpt3, art_gpt3] ({lit ''https://openai.com/index/gpt-3/''}, [art_gpt3], 0)
     = ({lit ''https://openai.com/index/gpt-3/''}, [art_gpt3], 0)
   \<and> distinct (map art_key []) \<and> set (map art_key []) = {}
   \<and> distinct (map art_key [art_gpt3])
   \<and> set (map art_key [art_gpt3]) = {lit ''https://openai.com/index/gpt-3/''}
   \<and> fetch_loop 1 example_site NEWS_URL 1 ({}, [])
     = Some ({lit ''https://openai.com/index/gpt-3/''}, [art_gpt3])"
proof -
  note T = dedup_idempotent [where pg = "[art_blank, art_gpt3, art_gpt3]" and seen = "{}" and acc = "[]"
      and n = 0 and seen' = "{lit ''https://openai.com/index/gpt-3/''}" and acc' = "[art_gpt3]"
      and new' = 1 and fuel = 1 and site = example_site and u = NEWS_URL and k = 1
      and seenF = "{lit ''https://openai.com/index/gpt-3/''}" and accF = "[art_gpt3]"]
  have second: "dedup [art_blank, art_gpt3, art_gpt3] ({lit ''https://openai.com/index/gpt-3/''}, [art_gpt3], 0)
     = ({lit ''https://openai.com/index/gpt-3/''}, [art_gpt3], 0)"
    using T example_dedup by blast
  have loop: "fetch_loop 1 example_site NEWS_URL 1 ({}, [])
     = Some ({lit ''https://openai.com/index/gpt-3/''}, [art_gpt3])"
    using example_fetch_loop by simp
  have inv: "distinct (map art_key [art_gpt3])
      \<and> set (map art_key [art_gpt3]) = {lit ''https://openai.com/index/gpt-3/''}"
    using T loop by blast
  show ?thesis
    using example_dedup second inv loop by simp
qed

section \<open>C10: a record without url and title is dropped\<close>

text \<open>
  C10. A record whose url and title are both empty has the empty key: the loop passes it
  over, leaving the keys seen, the accumulated list and the count of new records as they
  are. No record with the empty key is ever in the accumulated list, nor the empty key
  among the keys seen, and the count grows by the number of records appended. So such a
  record is not in the list that a completed fetch writes to the cache of raw articles.
\<close>

theorem empty_key_dropped:
  "(get_or (url art) [] = [] \<and> get_or (title art) [] = [] \<longrightarrow>
      art_key art = [] \<and> dedup (art # pg) (seen, acc, n) = dedup pg (seen, acc, n))
   \<and> (dedup pg (seen, acc, n) = (seen', acc', new') \<and> (\<forall>a \<in> set acc. art_key a \<noteq> []) \<and> [] \<notin> seen
       \<longrightarrow> (\<forall>a \<in> set acc'. art_key a \<noteq> []) \<and> [] \<notin> seen'
           \<and> length acc' + n = length acc + new')
   \<and> (cmd_fetch fuel e site fs = Some fs' \<and> get_or (url art) [] = [] \<and> get_or (title art) [] = []
       \<longrightarrow> (\<exists>all_articles. fs' = fs(RAW_PATH e \<mapsto> Articles all_articles) \<and> art \<notin> set all_articles))"
proof -
  have a: "get_or (url art) [] = [] \<Longrightarrow> get_or (title art) [] = [] \<Longrightarrow>
      art_key art = [] \<and> dedup (art # pg) (seen, acc, n) = dedup pg (seen, acc, n)"
    using empty_key [of art] by simp
  have b: "dedup pg (seen, acc, n) = (seen', acc', new') \<Longrightarrow> \<forall>a \<in> set acc. art_key a \<noteq> [] \<Longrightarrow> [] \<notin> seen
       \<Longrightarrow> (\<forall>a \<in> set acc'. art_key a \<noteq> []) \<and> [] \<notin> seen' \<and> length acc' + n = length acc + new'"
    using dedup_nonempty [of pg seen acc n seen' acc' new']
      dedup_seen_nonempty [of pg seen acc n seen' acc' new']
      dedup_count [of pg seen acc n seen' acc' new']
    by blast
  have c: "cmd_fetch fuel e site fs = Some fs' \<Longrightarrow> get_or (url art) [] = [] \<Longrightarrow> get_or (title art) [] = []
       \<Longrightarrow> \<exists>all_articles. fs' = fs(RAW_PATH e \<mapsto> Articles all_articles) \<and> art \<notin> set all_articles"
    using cmd_fetch_saved [of fuel e site fs fs'] empty_key [of art] by blast
  show ?thesis
    using a b c by blast
qed

text \<open>
  The theorem at the page of the example site, whose first record has neither url nor
  title: the cache receives the announcement only.
\<close>

theorem empty_key_dropped_witness:
  "get_or (url art_blank) [] = [] \<and> get_or (title art_blank) [] = []
   \<and> art_key art_blank = []
   \<and> dedup (art_blank # [art_gpt3, art_gpt3]) ({}, [], 0) = dedup [art_gpt3, art_gpt3] ({}, [], 0)
   \<and> dedup [art_blank, art_gpt3, art_gpt3] ({}, [], 0)
     = ({lit ''https://openai.com/index/gpt-3/''}, [art_gpt3], 1)
   \<and> \<not> (\<exists>a \<in> set []. art_key a = []) \<and> [] \<notin> ({} :: ustr set)
   \<and> \<not> (\<exists>a \<in> set [art_gpt3]. art_key a = [])
   \<and> [] \<notin> {lit ''https://openai.com/index/gpt-3/''}
   \<and> cmd_fetch 1 example_env example_site Map.empty
     = Some [RAW_PATH example_env \<mapsto> Articles [art_gpt3]]
   \<and> (\<exists>all_articles. [RAW_PATH example_env \<mapsto> Articles [art_gpt3]]
          = Map.empty(RAW_PATH example_env \<mapsto> Articles all_articles)
        \<and> art_blank \<notin> set all_articles)"
proof -
  note T = empty_key_dropped [where art = art_blank and pg = "[art_gpt3, art_gpt3]" and seen = "{}"
      and acc = "[]" and n = 0 and fuel = 1 and e = example_env and site = example_site
      and fs = Map.empty and fs' = "[RAW_PATH example_env \<mapsto> Articles [art_gpt3]]"]
  note U = empty_key_dropped [where art = art_blank and pg = "[art_blank, art_gpt3, art_gpt3]"
      and seen = "{}" and acc = "[]" and n = 0
      and seen' = "{lit ''https://openai.com/index/gpt-3/''}" and acc' = "[art_gpt3]" and new' = 1]
  have h: "get_or (url art_blank) [] = []" "get_or (title art_blank) [] = []"
    by (simp_all add: art_blank_def raw_article_def get_or_def)
  have d: "art_key art_blank = []
      \<and> dedup (art_blank # [art_gpt3, art_gpt3]) ({}, [], 0) = dedup [art_gpt3, art_gpt3] ({}, [], 0)"
    using T h by blast
  have i: "(\<forall>a \<in> set [art_gpt3]. art_key a \<noteq> []) \<and> [] \<notin> {lit ''https://openai.com/index/gpt-3/''}"
    using U example_dedup by simp
  have f: "\<exists>all_articles. [RAW_PATH example_env \<mapsto> Articles [art_gpt3]]
          = Map.empty(RAW_PATH example_env \<mapsto> Articles all_articles)
        \<and> art_blank \<notin> set all_articles"
    using T h example_fetch by blast
  show ?thesis
    using h d i f example_dedup example_fetch by simp
qed

section \<open>Facts about the merger\<close>

lemma emit_files: "files (emit x w) = files w"
  by (simp add: emit_def)

lemma merge_articles_result:
  "merge_articles arts (w, events) = (w', events') \<Longrightarrow>
   files w' = files w \<and> events' = events @ events_of arts"
proof (induction arts arbitrary: w events)
  case Nil
  then show ?case by (simp add: events_of_def)
next
  case (Cons a arts)
  show ?case
  proof (cases "parse_date (get_or (date_str a) [])")
    case None
    with Cons.prems have
      "merge_articles arts (emit (Print (SkipNoDate (get_or (title a) []))) w, events) = (w', events')"
      by simp
    from Cons.IH [OF this] None show ?thesis by (simp add: events_of_def emit_files)
  next
    case (Some sd)
    with Cons.prems have "merge_articles arts (w, events @ [make_event a sd]) = (w', events')"
      by simp
    from Cons.IH [OF this] Some show ?thesis by (simp add: events_of_def)
  qed
qed

lemma merge_phases_result:
  "merge_phases e ns (w, events) = (w', Inr events') \<Longrightarrow>
   files w' = files w \<and> events' = events @ concat (map (phase_events e (files w)) ns)"
proof (induction ns arbitrary: w events)
  case Nil
  then show ?case by simp
next
  case (Cons n ns)
  show ?case
  proof (cases "files w (phase_path e n)")
    case None
    with Cons.prems have
      "merge_phases e ns (emit (Print (WarnMissing (phase_path e n))) (emit (Exists (phase_path e n)) w), events)
       = (w', Inr events')"
      by (simp add: Let_def)
    from Cons.IH [OF this] None show ?thesis
      by (simp add: emit_files phase_events_def)
  next
    case (Some d)
    show ?thesis
    proof (cases d)
      case (Articles arts)
      obtain w1 ev1 where ma: "merge_articles arts
          (emit (Print (ReadCount n (length arts))) (emit (Load (phase_path e n)) (emit (Exists (phase_path e n)) w)),
           events) = (w1, ev1)"
        by (cases "merge_articles arts
          (emit (Print (ReadCount n (length arts))) (emit (Load (phase_path e n)) (emit (Exists (phase_path e n)) w)),
           events)") auto
      from merge_articles_result [OF ma]
      have r1: "files w1 = files w" "ev1 = events @ events_of arts"
        by (simp_all add: emit_files)
      from Cons.prems Some Articles ma have "merge_phases e ns (w1, ev1) = (w', Inr events')"
        by (simp add: Let_def)
      from Cons.IH [OF this] r1 Some Articles show ?thesis
        by (simp add: phase_events_def)
    next
      case (Timeline evs)
      with Cons.prems Some show ?thesis by (simp add: Let_def)
    qed
  qed
qed

lemma merge_phases_failure:
  "merge_phases e ns (w, events) = (w', Inl f) \<Longrightarrow> f = AttributeError \<and> files w' = files w"
proof (induction ns arbitrary: w events)
  case Nil
  then show ?case by simp
next
  case (Cons n ns)
  show ?case
  proof (cases "files w (phase_path e n)")
    case None
    with Cons.prems have
      "merge_phases e ns (emit (Print (WarnMissing (phase_path e n))) (emit (Exists (phase_path e n)) w), events)
       = (w', Inl f)"
      by (simp add: Let_def)
    from Cons.IH [OF this] show ?thesis by (simp add: emit_files)
  next
    case (Some d)
    show ?thesis
    proof (cases d)
      case (Articles arts)
      obtain w1 ev1 where ma: "merge_articles arts
          (emit (Print (ReadCount n (length arts))) (emit (Load (phase_path e n)) (emit (Exists (phase_path e n)) w)),
           events) = (w1, ev1)"
        by (cases "merge_articles arts
          (emit (Print (ReadCount n (length arts))) (emit (Load (phase_path e n)) (emit (Exists (phase_path e n)) w)),
           events)") auto
      from merge_articles_result [OF ma] have r1: "files w1 = files w"
        by (simp add: emit_files)
      from Cons.prems Some Articles ma have "merge_phases e ns (w1, ev1) = (w', Inl f)"
        by (simp add: Let_def)
      from Cons.IH [OF this] r1 show ?thesis by simp
    next
      case (Timeline evs)
      with Cons.prems Some show ?thesis by (auto simp: Let_def emit_files)
    qed
  qed
qed

lemma py_int_digits: "s \<noteq> [] \<Longrightarrow> list_all is_digit s \<Longrightarrow> py_int s \<noteq> None"
  by (simp add: py_int_def)

lemma strict_match_digits:
  "strict_match ds = Some (y, m, d) \<Longrightarrow>
   y \<noteq> [] \<and> list_all is_digit y \<and> m \<noteq> [] \<and> list_all is_digit m \<and> d \<noteq> [] \<and> list_all is_digit d"
  by (auto simp: strict_match_def split: if_splits)

lemma if_some_iff: "((if c then Some x else None) = Some y) \<longleftrightarrow> (c \<and> x = y)"
  by simp

lemma takeWhile_all: "list_all P (takeWhile P xs)"
  by (induction xs) auto

lemma name_match_digits:
  assumes "name_match ds = Some (name, dd, yyyy)"
  shows "dd \<noteq> [] \<and> list_all is_digit dd \<and> yyyy \<noteq> [] \<and> list_all is_digit yyyy"
proof -
  from assms obtain r where d: "dd = takeWhile is_digit r" and n: "dd \<noteq> []"
    and y: "length yyyy = 4" "list_all is_digit yyyy"
    unfolding name_match_def Let_def if_some_iff prod.inject by blast
  from y(1) have "yyyy \<noteq> []" by auto
  with d n y show ?thesis by (simp add: takeWhile_all)
qed

lemma zfill_digits: "s \<noteq> [] \<Longrightarrow> list_all is_digit s \<Longrightarrow> zfill w s \<noteq> [] \<and> list_all is_digit (zfill w s)"
  by (cases s) (auto simp: zfill_def is_digit_def list_all_iff)

lemma month_map_values: "list_all (\<lambda>kv. snd kv \<noteq> [] \<and> list_all is_digit (snd kv)) month_map"
  by (simp add: month_map_def lit_def is_digit_def)

lemma month_map_digits: "map_of month_map k = Some v \<Longrightarrow> v \<noteq> [] \<and> list_all is_digit v"
proof -
  assume "map_of month_map k = Some v"
  then have "(k, v) \<in> set month_map" by (rule map_of_SomeD)
  with month_map_values show ?thesis
    unfolding list_all_iff by fastforce
qed

lemma parse_date_keys:
  "parse_date ds = Some sd \<Longrightarrow>
   py_int (year sd) \<noteq> None \<and> py_int (month sd) \<noteq> None
   \<and> (\<forall>d. day sd = Some d \<longrightarrow> py_int d \<noteq> None)"
proof (cases "strict_match ds")
  case None
  assume p: "parse_date ds = Some sd"
  with None obtain name dd yyyy mon where
    nm: "name_match ds = Some (name, dd, yyyy)" and mm: "map_of month_map (lower name) = Some mon"
    and sd: "sd = \<lparr>year = yyyy, month = mon, day = Some (zfill 2 dd)\<rparr>"
    by (auto simp: parse_date_def split: if_splits option.splits)
  from name_match_digits [OF nm] have dd: "dd \<noteq> []" "list_all is_digit dd"
    and yy: "yyyy \<noteq> []" "list_all is_digit yyyy" by simp_all
  from zfill_digits [OF dd] have "py_int (zfill 2 dd) \<noteq> None"
    by (simp add: py_int_digits)
  moreover from yy have "py_int yyyy \<noteq> None" by (simp add: py_int_digits)
  moreover from month_map_digits [OF mm] have "py_int mon \<noteq> None" by (simp add: py_int_digits)
  ultimately show ?thesis using sd by simp
next
  case (Some t)
  assume p: "parse_date ds = Some sd"
  obtain y m d where t: "t = (y, m, d)" by (cases t)
  with Some p have sd: "sd = \<lparr>year = y, month = m, day = (if d \<noteq> lit ''01'' then Some d else None)\<rparr>"
    by (auto simp: parse_date_def split: if_splits)
  from strict_match_digits [of ds y m d] Some t
  have "py_int y \<noteq> None" "py_int m \<noteq> None" "py_int d \<noteq> None"
    by (simp_all add: py_int_digits)
  with sd show ?thesis by simp
qed

lemma make_event_start: "start (make_event a sd) = sd"
  by (simp add: make_event_def Let_def)

lemma sort_key_of_parsed:
  "parse_date ds = Some sd \<Longrightarrow> sort_key_of (make_event a sd) \<noteq> None"
  using parse_date_keys [of ds sd]
  by (auto simp: sort_key_of_def make_event_start split: option.splits)

lemma events_of_keys: "list_all (\<lambda>ev. sort_key_of ev \<noteq> None) (events_of arts)"
  unfolding events_of_def list_all_iff
  using sort_key_of_parsed by fastforce

lemma phase_events_keys: "list_all (\<lambda>ev. sort_key_of ev \<noteq> None) (phase_events e fs n)"
  using events_of_keys by (auto simp: phase_events_def split: option.splits doc.splits)

lemma concat_phase_events_keys:
  "list_all (\<lambda>ev. sort_key_of ev \<noteq> None) (concat (map (phase_events e fs) ns))"
  using phase_events_keys by (induction ns) (auto simp: list_all_iff)


declare merge_phases.simps [simp del]

lemma save_json_files: "files (save_json p d w) = (files w)(p \<mapsto> d)"
  by (simp add: save_json_def emit_def)

lemma cmd_merge_assert:
  "abspath e (OUTPUT_PATH e) = abspath e (ORIGINAL_PATH e) \<Longrightarrow>
   cmd_merge e w = (w\<lparr>log := log w @ [Print Rule, Print MergeTitle, Print Rule]\<rparr>, Some AssertionError)"
  by (simp add: cmd_merge_def emit_def)

lemma cmd_merge_passes:
  assumes "abspath e (OUTPUT_PATH e) \<noteq> abspath e (ORIGINAL_PATH e)"
    and "cmd_merge e w = (w', r)"
  shows "r \<noteq> Some AssertionError \<and> r \<noteq> Some ValueError
    \<and> (r = None \<longrightarrow> files w' = (files w)(OUTPUT_PATH e \<mapsto>
          Timeline (sort_key (\<lambda>ev. the (sort_key_of ev))
            (concat (map (phase_events e (files w)) [1, 2, 3, 4])))))
    \<and> (r \<noteq> None \<longrightarrow> files w' = files w \<and> r = Some AttributeError)"
proof -
  let ?w1 = "emit (Print Rule) (emit (Print MergeTitle) (emit (Print Rule) w))"
  obtain w2 res where mp: "merge_phases e [1, 2, 3, 4] (?w1, []) = (w2, res)"
    by (cases "merge_phases e [1, 2, 3, 4] (?w1, [])") auto
  show ?thesis
  proof (cases res)
    case (Inl f)
    from merge_phases_failure [of e "[1, 2, 3, 4]" ?w1 "[]" w2 f] mp Inl
    have "f = AttributeError" "files w2 = files w" by (simp_all add: emit_files)
    moreover from assms mp Inl have "w' = w2" "r = Some f"
      by (simp_all add: cmd_merge_def Let_def)
    ultimately show ?thesis by simp
  next
    case (Inr events)
    from merge_phases_result [of e "[1, 2, 3, 4]" ?w1 "[]" w2 events] mp Inr
    have f2: "files w2 = files w"
      and ev: "events = concat (map (phase_events e (files w)) [1, 2, 3, 4])"
      by (simp_all add: emit_files)
    have keys: "list_all (\<lambda>ev. sort_key_of ev \<noteq> None) events"
      unfolding ev by (rule concat_phase_events_keys)
    then have se: "sort_events events = Inr (sort_key (\<lambda>ev. the (sort_key_of ev)) events)"
      by (simp add: sort_events_def)
    from assms mp Inr se have "r = None"
      and "files w' = (files w2)(OUTPUT_PATH e \<mapsto> Timeline (sort_key (\<lambda>ev. the (sort_key_of ev)) events))"
      by (auto simp: cmd_merge_def Let_def emit_files save_json_files)
    with f2 ev show ?thesis by simp
  qed
qed


lemma example_env_paths:
  "abspath example_env p = p"
  "OUTPUT_PATH example_env = lit ''/srv/timeline/contrib/examples/new_openai_data.json''"
  "ORIGINAL_PATH example_env = lit ''/srv/timeline/contrib/examples/openai_data.json''"
  "phase_path example_env (Suc 0) = lit ''/srv/timeline/scripts/phase1.json''"
  "phase_path example_env 2 = lit ''/srv/timeline/scripts/phase2.json''"
  "phase_path example_env 3 = lit ''/srv/timeline/scripts/phase3.json''"
  "phase_path example_env 4 = lit ''/srv/timeline/scripts/phase4.json''"
  by (simp_all add: example_env_def installed_def lit_def str_nat.simps)

lemma example_paths_distinct:
  "OUTPUT_PATH example_env \<noteq> ORIGINAL_PATH example_env"
  by (simp add: example_env_paths lit_def)




lemma example_keys:
  "sort_key_of ev_2019 = Some (2019, 12, 0)" "sort_key_of ev_2020 = Some (2020, 1, 15)"
  by (simp_all add: sort_key_of_def ev_2019_def ev_2020_def make_event_start py_int_def
      digit_val_def lit_def is_digit_def)

lemma example_sorts:
  "sort_key (\<lambda>ev. the (sort_key_of ev)) [ev_2019, ev_2020] = [ev_2019, ev_2020]"
  "sort_key (\<lambda>ev. the (sort_key_of ev)) [ev_2020, ev_2019] = [ev_2019, ev_2020]"
  by (simp_all add: example_keys less_eq_prod_def)






lemma protected_env_paths:
  "OUTPUT_PATH protected_env = ORIGINAL_PATH protected_env"
  "abspath protected_env p = p"
  by (simp_all add: protected_env_def example_env_def installed_def)

section \<open>C3: the merged events are sorted\<close>



section \<open>C4: the merge refuses the protected path\<close>

text \<open>
  C4, as amended. If the output path is the path of the reference dataset, or denotes
  the same absolute path, the merge raises the assertion failure after printing its
  three banner lines and before any access to the file system: it checks the existence
  of no file, reads no phase file and writes nothing, so that the files are as they were.
  With paths that differ the assertion does not fail.
\<close>

theorem merge_refuses_protected_path:
  "(abspath e (OUTPUT_PATH e) = abspath e (ORIGINAL_PATH e) \<longrightarrow>
      cmd_merge e w = (w\<lparr>log := log w @ [Print Rule, Print MergeTitle, Print Rule]\<rparr>, Some AssertionError))
   \<and> (OUTPUT_PATH e = ORIGINAL_PATH e \<longrightarrow>
        snd (cmd_merge e w) = Some AssertionError
        \<and> files (fst (cmd_merge e w)) = files w
        \<and> log (fst (cmd_merge e w)) = log w @ [Print Rule, Print MergeTitle, Print Rule])
   \<and> (abspath e (OUTPUT_PATH e) \<noteq> abspath e (ORIGINAL_PATH e) \<longrightarrow>
        snd (cmd_merge e w) \<noteq> Some AssertionError)"
proof -
  have a: "abspath e (OUTPUT_PATH e) = abspath e (ORIGINAL_PATH e) \<Longrightarrow>
      cmd_merge e w = (w\<lparr>log := log w @ [Print Rule, Print MergeTitle, Print Rule]\<rparr>, Some AssertionError)"
    by (rule cmd_merge_assert)
  have b: "OUTPUT_PATH e = ORIGINAL_PATH e \<Longrightarrow>
        snd (cmd_merge e w) = Some AssertionError
        \<and> files (fst (cmd_merge e w)) = files w
        \<and> log (fst (cmd_merge e w)) = log w @ [Print Rule, Print MergeTitle, Print Rule]"
    using cmd_merge_assert [of e w] by simp
  have c: "abspath e (OUTPUT_PATH e) \<noteq> abspath e (ORIGINAL_PATH e) \<Longrightarrow>
        snd (cmd_merge e w) \<noteq> Some AssertionError"
    using cmd_merge_passes [of e w "fst (cmd_merge e w)" "snd (cmd_merge e w)"] by simp
  show ?thesis
    using a b c by blast
qed

text \<open>
  The theorem at the installation whose output path has been set to the path of the
  reference dataset, and at the installation as it is.
\<close>

theorem merge_refuses_protected_path_witness:
  "OUTPUT_PATH protected_env = ORIGINAL_PATH protected_env
   \<and> abspath protected_env (OUTPUT_PATH protected_env) = abspath protected_env (ORIGINAL_PATH protected_env)
   \<and> cmd_merge protected_env world_in_order
       = (world_in_order\<lparr>log := log world_in_order @ [Print Rule, Print MergeTitle, Print Rule]\<rparr>,
          Some AssertionError)
   \<and> snd (cmd_merge protected_env world_in_order) = Some AssertionError
   \<and> files (fst (cmd_merge protected_env world_in_order)) = files world_in_order
   \<and> log (fst (cmd_merge protected_env world_in_order))
       = log world_in_order @ [Print Rule, Print MergeTitle, Print Rule]
   \<and> abspath example_env (OUTPUT_PATH example_env) \<noteq> abspath example_env (ORIGINAL_PATH example_env)
   \<and> snd (cmd_merge example_env world_in_order) \<noteq> Some AssertionError"
proof -
  note T = merge_refuses_protected_path [where e = protected_env and w = world_in_order]
  note U = merge_refuses_protected_path [where e = example_env and w = world_in_order]
  have p: "OUTPUT_PATH protected_env = ORIGINAL_PATH protected_env"
    by (rule protected_env_paths(1))
  then have q: "abspath protected_env (OUTPUT_PATH protected_env)
      = abspath protected_env (ORIGINAL_PATH protected_env)" by simp
  have d: "abspath example_env (OUTPUT_PATH example_env) \<noteq> abspath example_env (ORIGINAL_PATH example_env)"
    using example_paths_distinct by (simp add: example_env_paths(1))
  show ?thesis
    using T U p q d by blast
qed

text \<open>
  C4 as the specification states it, with the assertion before every side effect of the
  merge, fails: the merge that refuses to run has printed three lines before the
  assertion, and the world it leaves is not the world it found.
\<close>

theorem merge_banner_counterexample:
  "OUTPUT_PATH protected_env = ORIGINAL_PATH protected_env
   \<and> snd (cmd_merge protected_env world_in_order) = Some AssertionError
   \<and> log world_in_order = []
   \<and> log (fst (cmd_merge protected_env world_in_order)) = [Print Rule, Print MergeTitle, Print Rule]
   \<and> fst (cmd_merge protected_env world_in_order) \<noteq> world_in_order"
proof -
  have r: "cmd_merge protected_env world_in_order
       = (world_in_order\<lparr>log := log world_in_order @ [Print Rule, Print MergeTitle, Print Rule]\<rparr>,
          Some AssertionError)"
    by (rule cmd_merge_assert) (simp add: protected_env_paths(1))
  have l: "log world_in_order = []" by (simp add: world_in_order_def)
  have n: "fst (cmd_merge protected_env world_in_order) \<noteq> world_in_order"
  proof
    assume "fst (cmd_merge protected_env world_in_order) = world_in_order"
    then have "log (fst (cmd_merge protected_env world_in_order)) = log world_in_order" by simp
    with r l show False by simp
  qed
  show ?thesis
    using r l n protected_env_paths(1) by simp
qed

end
